theory Spec2Isabelle
  imports Main "HOL-Library.Sublist" "HOL-Library.AList" "HOL-Library.Multiset"
begin

section \<open>The command-line front end of IMQS/cli (cli.go)\<close>

text \<open>
  Go strings are byte sequences: a \<^typ>\<open>string\<close> here is the list of the bytes, and
  \<open>len\<close> is \<^const>\<open>length\<close>.  A nil pointer or nil function value is \<^const>\<open>None\<close>.
  A handler (\<open>ExecFunc\<close>) is opaque: the type variable \<open>'h\<close> names the registered
  callbacks, and calling one is recorded as an event.
\<close>

subsection \<open>Library functions used by the package\<close>

text \<open>\<open>strings.Index(s, substr)\<close>: the index of the first occurrence, or -1.\<close>

fun strings_Index :: "string \<Rightarrow> string \<Rightarrow> int" where
  "strings_Index [] substr = (if substr = [] then 0 else - 1)"
| "strings_Index (c # cs) substr =
     (if prefix substr (c # cs) then 0
      else (let r = strings_Index cs substr in if r = - 1 then - 1 else r + 1))"

text \<open>\<open>strings.Split(s, sep)\<close> for the one-byte separators the package uses
  (\<open>" "\<close> and \<open>"\n"\<close>): the pieces between the separators, always at least one.\<close>

fun strings_Split :: "string \<Rightarrow> char \<Rightarrow> string list" where
  "strings_Split [] sep = [[]]"
| "strings_Split (c # cs) sep =
     (if c = sep then [] # strings_Split cs sep
      else (case strings_Split cs sep of
              [] \<Rightarrow> [[c]]
            | w # ws \<Rightarrow> (c # w) # ws))"

text \<open>\<open>strings.Join(elems, sep)\<close>.\<close>

fun strings_Join :: "string list \<Rightarrow> string \<Rightarrow> string" where
  "strings_Join [] sep = []"
| "strings_Join [x] sep = x"
| "strings_Join (x # y # ys) sep = x @ sep @ strings_Join (y # ys) sep"

text \<open>\<open>strings.Repeat(" ", n)\<close>.\<close>

definition spaces :: "nat \<Rightarrow> string" where
  "spaces n = replicate n CHR '' ''"

text \<open>The verb \<open>%v\<close> on a non-negative \<open>int\<close>: its decimal digits.\<close>

fun show_nat :: "nat \<Rightarrow> string" where
  "show_nat n =
     (if n < 10 then [char_of (48 + n)]
      else show_nat (n div 10) @ [char_of (48 + n mod 10)])"

declare show_nat.simps [simp del]

text \<open>
  \<open>utf8.RuneCountInString\<close>: \<open>fmt\<close> pads a string to a width counted in runes, not in
  bytes.  A byte that does not start a well-formed UTF-8 sequence counts as one rune.
  \<open>rune_size c cs\<close> is the number of bytes of the rune that starts with byte \<open>c\<close>,
  followed by the bytes \<open>cs\<close>.
\<close>

definition cont_byte :: "nat \<Rightarrow> nat \<Rightarrow> char \<Rightarrow> bool" where
  "cont_byte lo hi c \<longleftrightarrow> lo \<le> (of_char c :: nat) \<and> (of_char c :: nat) \<le> hi"

definition rune_size :: "char \<Rightarrow> string \<Rightarrow> nat" where
  "rune_size c cs =
     (let b = (of_char c :: nat) in
      if b < 0x80 then 1
      else if b < 0xC2 \<or> 0xF4 < b then 1
      else
        (let size = (if b < 0xE0 then 2 else if b < 0xF0 then 3 else 4 :: nat);
             lo = (if b = 0xE0 then 0xA0 else if b = 0xF0 then 0x90 else 0x80 :: nat);
             hi = (if b = 0xED then 0x9F else if b = 0xF4 then 0x8F else 0xBF :: nat)
         in if length cs < size - 1 then 1
            else if \<not> cont_byte lo hi (cs ! 0) then 1
            else if size = 2 then 2
            else if \<not> cont_byte 0x80 0xBF (cs ! 1) then 1
            else if size = 3 then 3
            else if \<not> cont_byte 0x80 0xBF (cs ! 2) then 1
            else 4))"

function RuneCountInString :: "string \<Rightarrow> nat" where
  "RuneCountInString [] = 0"
| "RuneCountInString (c # cs) = Suc (RuneCountInString (drop (rune_size c cs - 1) cs))"
  by pat_completeness auto
termination
  by (relation "measure length") auto

text \<open>
  The verb \<open>%-Nv\<close> of \<open>fmt\<close> on a string, once the width \<open>N\<close> is read: the string
  followed by the spaces that bring it to \<open>N\<close> runes.  (For \<open>N = 0\<close> the \<open>0\<close> is read as
  a flag and nothing is padded, which is the same.)
\<close>

definition pad_right :: "nat \<Rightarrow> string \<Rightarrow> string" where
  "pad_right n s = s @ spaces (n - RuneCountInString s)"

text \<open>
  \<open>fmt\<close> reads the digits of a width one by one and gives up when the number read so
  far is above \<open>10^6\<close> and a digit is still to come, that is, from the width
  \<open>10000010\<close> on.  It then drops the rest of the format, writes \<open>%!(NOVERB)\<close> in place
  of the verb and lists the arguments as \<open>%!(EXTRA string=..., string=...)\<close>.
\<close>

definition width_too_large :: "nat \<Rightarrow> bool" where
  "width_too_large n \<longleftrightarrow> 1000000 < n div 10"

text \<open>\<open>fmt.Sprintf(optionFormatStr, s)\<close>, where \<open>optionFormatStr\<close> is \<open>"  -%-Nv"\<close> with
  \<open>N = longest\<close>.\<close>

definition Sprintf_optionFormatStr :: "nat \<Rightarrow> string \<Rightarrow> string" where
  "Sprintf_optionFormatStr longest s =
     (if width_too_large longest then ''  -%!(NOVERB)%!(EXTRA string='' @ s @ '')''
      else ''  -'' @ pad_right longest s)"

text \<open>\<open>fmt.Sprintf(cmdFormatStr, name, short)\<close>, where \<open>cmdFormatStr\<close> is
  \<open>"  %-Nv  %v\n"\<close> with \<open>N = longestCmd\<close>.\<close>

definition Sprintf_cmdFormatStr :: "nat \<Rightarrow> string \<Rightarrow> string \<Rightarrow> string" where
  "Sprintf_cmdFormatStr longestCmd name short =
     (if width_too_large longestCmd
      then ''  %!(NOVERB)%!(EXTRA string='' @ name @ '', string='' @ short @ '')''
      else ''  '' @ pad_right longestCmd name @ ''  '' @ short @ [CHR 0x0A])"

abbreviation newline :: char where
  "newline \<equiv> CHR 0x0A"

abbreviation apostrophe :: char where
  "apostrophe \<equiv> CHR 0x27"

subsection \<open>Data model\<close>

record Option =
  Key :: string
  Value :: string
  Description :: string

record 'h Command =
  Name :: string
  Description :: string
  Args :: "string list"
  Options :: "Option list"
  Exec :: "'h option"

record 'h App =
  Description :: string
  DefaultExec :: "'h option"
  Commands :: "'h Command list"
  Options :: "Option list"

text \<open>What a run does to the outside: a \<open>fmt.Printf\<close> call, or a call of a handler with
  the command name, the positional arguments and the option map.\<close>

datatype 'h event =
    Print string
  | Call 'h string "string list" "(string \<times> string) list"

text \<open>The run-time panic of a slice expression whose bounds are out of range.\<close>

datatype panic = SliceBoundsOutOfRange

subsection \<open>Lookups\<close>

fun findOption :: "Option list \<Rightarrow> string \<Rightarrow> Option option" where
  "findOption [] name = None"
| "findOption (opt # options) name =
     (if Key opt = name then Some opt else findOption options name)"

definition isVarArgs :: "string list \<Rightarrow> bool" where
  "isVarArgs args \<longleftrightarrow>
     length args \<noteq> 0 \<and> strings_Index (args ! (length args - 1)) ''...'' = 0"

definition ShortDescription :: "'h Command \<Rightarrow> string" where
  "ShortDescription c = strings_Split (Command.Description c) newline ! 0"

definition ExtraDescription :: "'h Command \<Rightarrow> string" where
  "ExtraDescription c =
     strings_Join (drop 1 (strings_Split (Command.Description c) newline)) [newline]"

fun find_in :: "'h Command list \<Rightarrow> string \<Rightarrow> 'h Command option" where
  "find_in [] cmdName = None"
| "find_in (c # cs) cmdName = (if Name c = cmdName then Some c else find_in cs cmdName)"

definition App_find :: "'h App \<Rightarrow> string \<Rightarrow> 'h Command option" where
  "App_find app cmdName = find_in (Commands app) cmdName"

subsection \<open>Formatting of help text\<close>

text \<open>
  The loop of \<open>formatTextIntoLines\<close> over the words, with the current \<open>line\<close> and the
  \<open>lines\<close> flushed so far.  \<open>i != len(words)-1\<close> is: some word is still to come.
\<close>

fun wrap_words :: "string list \<Rightarrow> string \<Rightarrow> string list \<Rightarrow> string \<times> string list" where
  "wrap_words [] line lines = (line, lines)"
| "wrap_words (w # ws) line lines =
     (if length (line @ w) > 55 then wrap_words ws [] (lines @ [line @ w])
      else if ws \<noteq> [] then wrap_words ws (line @ w @ '' '') lines
      else wrap_words ws (line @ w) lines)"

definition formatTextIntoLines :: "string \<Rightarrow> nat \<Rightarrow> nat \<Rightarrow> string list" where
  "formatTextIntoLines text firstLineIndent otherLinesIndent =
     (case wrap_words (strings_Split text CHR '' '') [] [] of
        (line, lines) \<Rightarrow> if length line \<noteq> 0 then lines @ [line] else lines)"

fun writeBody_lines :: "string list \<Rightarrow> bool \<Rightarrow> nat \<Rightarrow> nat \<Rightarrow> 'h event list" where
  "writeBody_lines [] first firstLineIndent otherLinesIndent = []"
| "writeBody_lines (line # lines) first firstLineIndent otherLinesIndent =
     Print (spaces (if first then firstLineIndent else otherLinesIndent) @ line @ [newline])
       # writeBody_lines lines False firstLineIndent otherLinesIndent"

definition writeBody :: "string \<Rightarrow> nat \<Rightarrow> nat \<Rightarrow> 'h event list" where
  "writeBody text firstLineIndent otherLinesIndent =
     writeBody_lines (formatTextIntoLines text firstLineIndent otherLinesIndent) True
       firstLineIndent otherLinesIndent"

definition formatCmdArgs :: "string list \<Rightarrow> string" where
  "formatCmdArgs args =
     (if isVarArgs args then
        (let varg = drop 3 (args ! (length args - 1))
         in strings_Join (take (length args - 1) args) '' '' @ '' '' @ varg @ ''1 '' @ varg @ ''2 ''
              @ varg @ ''3...'')
      else strings_Join args '' '')"

text \<open>The closures of \<open>ShowHelp\<close>.  \<open>optionFormatStr\<close> is made from \<open>longest\<close>, so
  \<open>formatOption\<close> takes \<open>longest\<close> in its place.\<close>

fun findLongestOption_from :: "nat \<Rightarrow> Option list \<Rightarrow> nat" where
  "findLongestOption_from mx [] = mx"
| "findLongestOption_from mx (opt # options) =
     (let len = (if Value opt \<noteq> [] then length (Key opt) + 1 + length (Value opt)
                 else length (Key opt))
      in findLongestOption_from (if len > mx then len else mx) options)"

definition findLongestOption :: "Option list \<Rightarrow> nat" where
  "findLongestOption options = findLongestOption_from 0 options"

definition formatOption :: "nat \<Rightarrow> Option \<Rightarrow> string" where
  "formatOption longest opt =
     (if Value opt \<noteq> [] then Sprintf_optionFormatStr longest (Key opt @ ''='' @ Value opt)
      else Sprintf_optionFormatStr longest (Key opt))"

fun showOptions_rows :: "nat \<Rightarrow> Option list \<Rightarrow> 'h event list" where
  "showOptions_rows longest [] = []"
| "showOptions_rows longest (opt # options) =
     Print (formatOption longest opt)
       # writeBody (Option.Description opt) 3 (6 + longest) @ showOptions_rows longest options"

definition showOptions :: "Option list \<Rightarrow> 'h event list" where
  "showOptions options =
     (let longest = findLongestOption options
      in Print [newline] # showOptions_rows longest options)"

fun longestCmd_from :: "nat \<Rightarrow> 'h Command list \<Rightarrow> nat" where
  "longestCmd_from mx [] = mx"
| "longestCmd_from mx (c # cs) =
     longestCmd_from (if length (Name c) > mx then length (Name c) else mx) cs"

fun showCommands_rows :: "nat \<Rightarrow> 'h Command list \<Rightarrow> 'h event list" where
  "showCommands_rows longestCmd [] = []"
| "showCommands_rows longestCmd (c # cs) =
     Print (Sprintf_cmdFormatStr longestCmd (Name c) (ShortDescription c))
       # showCommands_rows longestCmd cs"

text \<open>\<open>ShowHelp\<close> returns the App as it leaves it, and what it printed.\<close>

definition ShowHelp :: "'h App \<Rightarrow> string \<Rightarrow> 'h App \<times> 'h event list" where
  "ShowHelp app cmdName =
     (case App_find app cmdName of
        Some cmd \<Rightarrow>
          (let cmdAndArgs = Name cmd @ '' '' @ formatCmdArgs (Args cmd)
           in (app,
               [Print ([newline] @ cmdAndArgs @ [newline, newline])]
               @ writeBody (ShortDescription cmd @ ''.'') 2 2
               @ (if ExtraDescription cmd \<noteq> [] then writeBody (ExtraDescription cmd) 2 2 else [])
               @ (if length (Command.Options cmd) \<noteq> 0 then showOptions (Command.Options cmd)
                  else [])))
      | None \<Rightarrow>
          (let longestCmd = longestCmd_from 0 (Commands app)
           in (app,
               (if App.Description app \<noteq> []
                then [Print ([newline] @ App.Description app @ [newline, newline])] else [])
               @ showCommands_rows longestCmd (Commands app)
               @ (if length (App.Options app) \<noteq> 0 then showOptions (App.Options app) else []))))"

subsection \<open>Run\<close>

text \<open>
  The state of the tokenization loop: the option map, \<open>cmdName\<close> and \<open>cmdArgs\<close>.  The
  Go map is kept as an association list with one entry per key, assignment being
  \<^const>\<open>AList.update\<close>; a handler sees it as the map \<^const>\<open>map_of\<close> of the list.
\<close>

type_synonym parsed = "(string \<times> string) list \<times> string \<times> string list"

text \<open>One round of the loop, for an argument after the executable name.  The slice
  \<open>arg[0:1]\<close> panics on the empty string.\<close>

definition parse_arg :: "parsed \<Rightarrow> string \<Rightarrow> panic + parsed" where
  "parse_arg st arg =
     (case st of (options, cmdName, cmdArgs) \<Rightarrow>
        if length arg < 1 then Inl SliceBoundsOutOfRange
        else if take 1 arg = ''-'' then
          (let equals = strings_Index arg ''=''
           in if equals \<noteq> - 1
              then Inr (AList.update (take (nat equals - 1) (drop 1 arg))
                          (drop (nat equals + 1) arg) options, cmdName, cmdArgs)
              else Inr (AList.update (drop 1 arg) [] options, cmdName, cmdArgs))
        else if cmdName = [] then Inr (options, arg, cmdArgs)
        else Inr (options, cmdName, cmdArgs @ [arg]))"

fun parse_args :: "parsed \<Rightarrow> string list \<Rightarrow> panic + parsed" where
  "parse_args st [] = Inr st"
| "parse_args st (arg # args) =
     (case parse_arg st arg of
        Inl p \<Rightarrow> Inl p
      | Inr st' \<Rightarrow> parse_args st' args)"

text \<open>The body of the loop over the option map: the diagnostic of an entry that is not
  legal.\<close>

definition option_diagnostic :: "Option list \<Rightarrow> string \<Rightarrow> string \<Rightarrow> string option" where
  "option_diagnostic allOptions key val =
     (case findOption allOptions key of
        None \<Rightarrow> Some (''Unrecognized option '' @ key @ [newline])
      | Some opt \<Rightarrow>
          if Value opt = [] \<and> val \<noteq> []
          then Some (''Option '' @ Key opt @ '' does not take a value. Simply use -'' @ Key opt
                     @ [newline])
          else if Value opt \<noteq> [] \<and> val = []
          then Some (''Option '' @ Key opt @ '' needs a value. Use -'' @ Key opt @ ''=''
                     @ Value opt @ [newline])
          else None)"

fun check_options :: "Option list \<Rightarrow> (string \<times> string) list \<Rightarrow> string option" where
  "check_options allOptions [] = None"
| "check_options allOptions ((key, val) # rest) =
     (case option_diagnostic allOptions key val of
        Some msg \<Rightarrow> Some msg
      | None \<Rightarrow> check_options allOptions rest)"

definition arity_message :: "nat \<Rightarrow> string \<Rightarrow> string list \<Rightarrow> string" where
  "arity_message given cmdName args =
     show_nat given @ '' arguments given, but '' @ cmdName @ '' needs '' @ [apostrophe]
       @ formatCmdArgs args @ [apostrophe, newline]"

text \<open>
  \<open>Run\<close> on the argument vector \<open>argv\<close> (\<open>os.Args\<close>).  Go leaves the order in which
  \<open>range\<close> visits a map open: \<open>rangeOrder\<close> gives the order of the entries for this run.
  The result is the panic or, on return, the events of the run in order.
\<close>

definition Run ::
  "((string \<times> string) list \<Rightarrow> (string \<times> string) list) \<Rightarrow> 'h App \<Rightarrow> string list
     \<Rightarrow> panic + 'h event list" where
  "Run rangeOrder app argv =
     (case parse_args ([], [], []) (drop 1 argv) of
        Inl p \<Rightarrow> Inl p
      | Inr (options, cmdName, cmdArgs) \<Rightarrow>
          if cmdName = [] \<or> cmdName = ''help'' \<or> map_of options ''help'' \<noteq> None then
            (if length cmdArgs \<ge> 1 then Inr (snd (ShowHelp app (cmdArgs ! 0)))
             else Inr (snd (ShowHelp app cmdName)))
          else
            (case App_find app cmdName of
               Some cmd \<Rightarrow>
                 (let allOptions = App.Options app @ Command.Options cmd;
                      isVArgs = isVarArgs (Args cmd)
                  in if isVArgs \<and> length cmdArgs < length (Args cmd) - 1
                     then Inr [Print (arity_message (length cmdArgs) cmdName (Args cmd))]
                     else if \<not> isVArgs \<and> length cmdArgs \<noteq> length (Args cmd)
                     then Inr [Print (arity_message (length cmdArgs) cmdName (Args cmd))]
                     else
                       (case check_options allOptions (rangeOrder options) of
                          Some msg \<Rightarrow> Inr [Print msg]
                        | None \<Rightarrow>
                            (case (case Exec cmd of None \<Rightarrow> DefaultExec app | Some e \<Rightarrow> Some e) of
                               None \<Rightarrow>
                                 Inr [Print (''No exec function specified for command ''
                                             @ [apostrophe] @ cmdName @ [apostrophe, newline])]
                             | Some exec \<Rightarrow> Inr [Call exec cmdName cmdArgs options])))
             | None \<Rightarrow>
                 Inr [Print (''Unrecognized command '' @ [apostrophe] @ cmdName
                             @ [apostrophe, newline])]))"

subsection \<open>Notions used to state the properties\<close>

text \<open>
  An option token in the words of the specification: \<open>-key=value\<close> supplies the key with
  the value, a bare \<open>-key\<close> supplies it with the empty value.  The key ends at the first
  \<open>=\<close>, so it holds none.
\<close>

definition supplies :: "string \<Rightarrow> string \<Rightarrow> string \<Rightarrow> bool" where
  "supplies tok key val \<longleftrightarrow>
     CHR ''='' \<notin> set key \<and>
     (tok = CHR ''-'' # key @ CHR ''='' # val \<or> (tok = CHR ''-'' # key \<and> val = []))"

text \<open>The same, read off the token.\<close>

definition token_key :: "string \<Rightarrow> string" where
  "token_key tok = takeWhile (\<lambda>x. x \<noteq> CHR ''='') (drop 1 tok)"

definition token_value :: "string \<Rightarrow> string" where
  "token_value tok = drop 1 (dropWhile (\<lambda>x. x \<noteq> CHR ''='') (drop 1 tok))"


text \<open>The arity rule in the words of the specification: the declared list is variadic
  when its last name begins with the marker \<open>...\<close>; then at least the declared count
  minus one is required, otherwise exactly the declared count.\<close>

definition variadic :: "string list \<Rightarrow> bool" where
  "variadic args \<longleftrightarrow> args \<noteq> [] \<and> prefix ''...'' (last args)"

definition arity_ok :: "string list \<Rightarrow> nat \<Rightarrow> bool" where
  "arity_ok args given \<longleftrightarrow>
     (if variadic args then length args - 1 \<le> given else given = length args)"

text \<open>The legality of a supplied option: its key matches an entry of the effective
  option set (the first one with that key), a boolean entry comes with the empty value
  and a value entry with a non-empty one.\<close>

definition option_legal :: "Option list \<Rightarrow> string \<Rightarrow> string \<Rightarrow> bool" where
  "option_legal allOptions key val \<longleftrightarrow>
     (case findOption allOptions key of
        None \<Rightarrow> False
      | Some opt \<Rightarrow> (Value opt = []) = (val = []))"

fun is_call :: "'h event \<Rightarrow> bool" where
  "is_call (Call exec cmdName cmdArgs options) = True"
| "is_call (Print s) = False"

text \<open>The application of the package's example: \<open>start\<close>, \<open>initialize\<close> with the boolean
  option \<open>clean\<close> and the value option \<open>strength\<close>, and the variadic \<open>varargs\<close>, all
  handled by the default handler, here called \<open>exec\<close>.\<close>

definition example_app :: "string App" where
  "example_app =
     \<lparr>App.Description = ''myapp [options] command'',
      DefaultExec = Some ''exec'',
      Commands =
        [\<lparr>Name = ''start'', Command.Description = ''Start the application'',
          Args = [''port'', ''root-directory''], Command.Options = [], Exec = None\<rparr>,
         \<lparr>Name = ''initialize'',
          Command.Description =
            ''Initialize a directory'' @ [newline]
              @ ''This will setup the necessary structures in '' @ [apostrophe] @ ''directory''
              @ [apostrophe] @ ''.'',
          Args = [''root-directory''],
          Command.Options =
            [\<lparr>Key = ''clean'', Value = [], Option.Description = ''Clean all files''\<rparr>,
             \<lparr>Key = ''strength'', Value = ''howstrong'',
              Option.Description = ''Strong values clean more files''\<rparr>],
          Exec = None\<rparr>,
         \<lparr>Name = ''varargs'',
          Command.Description = ''Demonstrate variable number of arguments'',
          Args = [''param1'', ''...things''], Command.Options = [], Exec = None\<rparr>],
      App.Options = []\<rparr>"

text \<open>The application of the example in the package comment: three commands, of which
  \<open>createuser\<close> has a boolean option, and the global value option \<open>c\<close>.\<close>

definition imqsauth_app :: "string App" where
  "imqsauth_app =
     \<lparr>App.Description = ''imqsauth -c=configfile [options] command'',
      DefaultExec = Some ''exec'',
      Commands =
        [\<lparr>Name = ''createdb'', Command.Description = ''Create the postgres database'',
          Args = [], Command.Options = [], Exec = None\<rparr>,
         \<lparr>Name = ''resetauthgroups'',
          Command.Description = ''Reset the [admin,enabled] groups'',
          Args = [], Command.Options = [], Exec = None\<rparr>,
         \<lparr>Name = ''createuser'',
          Command.Description =
            ''Create a user in the authentication system'' @ [newline]
              @ ''This affects only the '' @ [apostrophe] @ ''authentication'' @ [apostrophe]
              @ '' system - the permit database is not altered by this command.'',
          Args = [''identity'', ''password''],
          Command.Options =
            [\<lparr>Key = ''update'', Value = [],
              Option.Description =
                ''If specified, and the user already exists, then behave identically to ''
                  @ [apostrophe] @ ''setpassword'' @ [apostrophe]
                  @ ''. If this is not specified, and the identity already exists, then the function returns with an error.''\<rparr>],
          Exec = None\<rparr>],
      App.Options =
        [\<lparr>Key = ''c'', Value = ''configfile'',
          Option.Description =
            ''Specify the authaus config file. A pseudo file called !TESTCONFIG1 is used by the REST test suite to load a test configuration. This option is mandatory.''\<rparr>]\<rparr>"

text \<open>A line that ends no later than the first word that takes it past the width: what
  comes before any of its spaces is within the width.\<close>

definition within_width :: "string \<Rightarrow> bool" where
  "within_width l \<longleftrightarrow> (\<forall>p q. l = p @ '' '' @ q \<longrightarrow> length p \<le> 55)"

section \<open>Tokenization\<close>


lemma strings_Index_ge: "- 1 \<le> strings_Index s sub"
  by (induction s) (auto simp: Let_def)

lemma strings_Index_zero_iff: "strings_Index s sub = 0 \<longleftrightarrow> prefix sub s"
proof (cases s)
  case Nil
  then show ?thesis by auto
next
  case (Cons c cs)
  have "- 1 \<le> strings_Index cs sub" by (rule strings_Index_ge)
  then show ?thesis using Cons by (auto simp: Let_def)
qed

lemma strings_Index_char:
  "strings_Index s [c] =
     (if c \<in> set s then int (length (takeWhile (\<lambda>x. x \<noteq> c) s)) else - 1)"
  by (induction s) (auto simp: Let_def)

lemma supplies_iff:
  "supplies tok key val \<longleftrightarrow>
     take 1 tok = ''-'' \<and> key = token_key tok \<and> val = token_value tok"
proof
  assume s: "supplies tok key val"
  then have nk: "\<And>x. x \<in> set key \<Longrightarrow> x \<noteq> CHR ''=''"
    by (auto simp: supplies_def)
  from s consider "tok = CHR ''-'' # key @ CHR ''='' # val" | "tok = CHR ''-'' # key" "val = []"
    by (auto simp: supplies_def)
  then show "take 1 tok = ''-'' \<and> key = token_key tok \<and> val = token_value tok"
  proof cases
    case 1
    then show ?thesis using nk
      by (simp add: token_key_def token_value_def takeWhile_append2 dropWhile_append2)
  next
    case 2
    have tw: "takeWhile (\<lambda>x. x \<noteq> CHR ''='') key = key"
      and dw: "dropWhile (\<lambda>x. x \<noteq> CHR ''='') key = []"
      using nk by auto
    show ?thesis using 2
      by (simp add: token_key_def token_value_def tw dw)
  qed
next
  assume a: "take 1 tok = ''-'' \<and> key = token_key tok \<and> val = token_value tok"
  then obtain r where tok: "tok = CHR ''-'' # r"
    by (cases tok) auto
  let ?P = "\<lambda>x. x \<noteq> CHR ''=''"
  from a tok have k: "key = takeWhile ?P r" and v: "val = drop 1 (dropWhile ?P r)"
    by (simp_all add: token_key_def token_value_def)
  have nk: "CHR ''='' \<notin> set key"
    using k by (auto dest: set_takeWhileD)
  show "supplies tok key val"
  proof (cases "dropWhile ?P r")
    case Nil
    then have "r = key" by (metis append_Nil2 k takeWhile_dropWhile_id)
    moreover have "val = []" by (simp add: v Nil)
    ultimately show ?thesis using nk tok by (simp add: supplies_def)
  next
    case (Cons x v')
    then have "x = CHR ''=''" using hd_dropWhile[of ?P r] by force
    moreover have "r = key @ x # v'" by (metis k Cons takeWhile_dropWhile_id)
    moreover have "val = v'" by (simp add: v Cons)
    ultimately show ?thesis using nk tok by (simp add: supplies_def)
  qed
qed

lemma parse_arg_option:
  assumes "take 1 arg = ''-''"
  shows "parse_arg (options, cmdName, cmdArgs) arg =
           Inr (AList.update (token_key arg) (token_value arg) options, cmdName, cmdArgs)"
proof -
  from assms obtain r where arg: "arg = CHR ''-'' # r"
    by (cases arg) auto
  let ?P = "\<lambda>x. x \<noteq> CHR ''=''"
  show ?thesis
  proof (cases "CHR ''='' \<in> set r")
    case True
    then have idx: "strings_Index arg ''='' = 1 + int (length (takeWhile ?P r))"
      using arg by (simp add: strings_Index_char)
    have "take (length (takeWhile ?P r)) r = takeWhile ?P r"
      by (simp add: takeWhile_eq_take[symmetric])
    moreover have "drop (Suc (length (takeWhile ?P r))) r = drop 1 (dropWhile ?P r)"
      by (simp add: dropWhile_eq_drop)
    ultimately show ?thesis using arg idx
      by (simp add: parse_arg_def token_key_def token_value_def Let_def nat_add_distrib)
  next
    case False
    then have idx: "strings_Index arg ''='' = - 1"
      using arg by (simp add: strings_Index_char)
    from False have tw: "takeWhile ?P r = r" and dw: "dropWhile ?P r = []"
      by auto
    show ?thesis using idx
      by (simp add: arg parse_arg_def token_key_def token_value_def tw dw del: strings_Index.simps)
  qed
qed

lemma parse_arg_positional:
  assumes "arg \<noteq> []" "take 1 arg \<noteq> ''-''"
  shows "parse_arg (options, cmdName, cmdArgs) arg =
           Inr (if cmdName = [] then (options, arg, cmdArgs) else (options, cmdName, cmdArgs @ [arg]))"
  using assms by (simp add: parse_arg_def)

lemma parse_arg_empty: "parse_arg st [] = Inl SliceBoundsOutOfRange"
  by (simp add: parse_arg_def split: prod.splits)

lemma parse_arg_nonempty: "arg \<noteq> [] \<Longrightarrow> \<exists>st'. parse_arg st arg = Inr st'"
proof -
  assume ne: "arg \<noteq> []"
  obtain options cmdName cmdArgs where st: "st = (options, cmdName, cmdArgs)"
    using prod_cases3 by blast
  show ?thesis
    by (cases "take 1 arg = ''-''") (simp_all add: st ne parse_arg_option parse_arg_positional)
qed

lemma parse_args_panic_iff: "(\<exists>st'. parse_args st toks = Inr st') \<longleftrightarrow> [] \<notin> set toks"
proof (induction toks arbitrary: st)
  case Nil
  show ?case by (simp del: split_paired_Ex)
next
  case (Cons t toks)
  show ?case
  proof (cases "t = []")
    case True
    then show ?thesis by (simp add: parse_arg_empty)
  next
    case False
    then obtain st' where "parse_arg st t = Inr st'"
      using parse_arg_nonempty by blast
    then show ?thesis using False Cons.IH[of st'] by auto
  qed
qed

lemma Run_returns_iff:
  "(\<exists>events. Run rangeOrder app argv = Inr events) \<longleftrightarrow>
     (\<exists>st. parse_args ([], [], []) (drop 1 argv) = Inr st)"
  by (cases "parse_args ([], [], []) (drop 1 argv)")
     (auto simp: Run_def Let_def split: option.splits)


text \<open>
  C10.  An empty string among the arguments after the executable name makes \<open>Run\<close> panic
  (the slice \<open>arg[0:1]\<close> is out of range) and nothing is printed or called; with no empty
  string among them \<open>Run\<close> returns.  So \<open>Run\<close> returns exactly when every token after the
  first is non-empty.
\<close>

theorem Run_panics_iff_empty_token:
  "(Run rangeOrder app argv = Inl SliceBoundsOutOfRange) = ([] \<in> set (drop 1 argv)) \<and>
   (\<exists>events. Run rangeOrder app argv = Inr events) = ([] \<notin> set (drop 1 argv))"
proof -
  have r: "(\<exists>events. Run rangeOrder app argv = Inr events) = ([] \<notin> set (drop 1 argv))"
    by (simp only: Run_returns_iff parse_args_panic_iff)
  have "(Run rangeOrder app argv = Inl SliceBoundsOutOfRange) = (\<not> (\<exists>events. Run rangeOrder app argv = Inr events))"
    by (cases "Run rangeOrder app argv") (auto intro: panic.exhaust)
  with r show ?thesis by simp
qed


theorem Run_panics_iff_empty_token_witness:
  "Run (\<lambda>kvs. kvs) \<lparr>App.Description = [], DefaultExec = Some (0::nat), Commands = [], App.Options = []\<rparr>
     [''myapp'', ''start'', []] = Inl SliceBoundsOutOfRange"
  using Run_panics_iff_empty_token
          [of "\<lambda>kvs. kvs"
              "\<lparr>App.Description = [], DefaultExec = Some (0::nat), Commands = [], App.Options = []\<rparr>"
              "[''myapp'', ''start'', []]"]
  by simp


subsection \<open>The option map and the positional arguments\<close>

lemma parse_args_append:
  "parse_args st (xs @ ys) =
     (case parse_args st xs of Inl p \<Rightarrow> Inl p | Inr st' \<Rightarrow> parse_args st' ys)"
  by (induction xs arbitrary: st) (auto split: sum.splits)

lemma parse_arg_options:
  assumes "parse_arg st tok = Inr st'"
  shows "map_of (fst st') key =
           (if take 1 tok = ''-'' \<and> token_key tok = key then Some (token_value tok)
            else map_of (fst st) key)"
proof -
  obtain options cmdName cmdArgs where st: "st = (options, cmdName, cmdArgs)"
    using prod_cases3 by blast
  have ne: "tok \<noteq> []"
    using assms by (auto simp: parse_arg_empty)
  show ?thesis
  proof (cases "take 1 tok = ''-''")
    case True
    then show ?thesis using assms
      by (auto simp: st parse_arg_option update_conv')
  next
    case False
    then show ?thesis using assms ne
      by (auto simp: st parse_arg_positional split: if_splits)
  qed
qed

lemma parse_args_options_unchanged:
  assumes "parse_args st toks = Inr st'"
    and "\<forall>t\<in>set toks. \<not> (take 1 t = ''-'' \<and> token_key t = key)"
  shows "map_of (fst st') key = map_of (fst st) key"
  using assms
proof (induction toks arbitrary: st)
  case Nil
  then show ?case by simp
next
  case (Cons t toks)
  from Cons.prems(1) obtain st1 where s1: "parse_arg st t = Inr st1"
    and rest: "parse_args st1 toks = Inr st'"
    by (auto split: sum.splits)
  have "map_of (fst st1) key = map_of (fst st) key"
    using parse_arg_options[OF s1, of key] Cons.prems(2) by auto
  moreover have "map_of (fst st') key = map_of (fst st1) key"
    using Cons.IH[OF rest] Cons.prems(2) by simp
  ultimately show ?case by simp
qed

lemma parse_args_last_wins:
  assumes "parse_args st (pre @ tok # post) = Inr st'"
    and "take 1 tok = ''-''"
    and "\<forall>t\<in>set post. \<not> (take 1 t = ''-'' \<and> token_key t = token_key tok)"
  shows "map_of (fst st') (token_key tok) = Some (token_value tok)"
proof -
  from assms(1) obtain st1 st2 where "parse_args st pre = Inr st1"
    and s2: "parse_arg st1 tok = Inr st2" and s3: "parse_args st2 post = Inr st'"
    by (auto simp: parse_args_append split: sum.splits)
  have "map_of (fst st2) (token_key tok) = Some (token_value tok)"
    using parse_arg_options[OF s2, of "token_key tok"] assms(2) by simp
  then show ?thesis
    using parse_args_options_unchanged[OF s3 assms(3)] by simp
qed

lemma parse_args_keys:
  assumes "parse_args st toks = Inr st'" and "fst st = []"
  shows "fst ` set (fst st') = {token_key t | t. t \<in> set toks \<and> take 1 t = ''-''}"
proof -
  have "key \<in> dom (map_of (fst st')) \<longleftrightarrow> (\<exists>t\<in>set toks. take 1 t = ''-'' \<and> token_key t = key)"
    for key
  proof (cases "\<exists>t\<in>set toks. take 1 t = ''-'' \<and> token_key t = key")
    case True
    then obtain pre tok post where sp: "toks = pre @ tok # post"
      and t: "take 1 tok = ''-'' \<and> token_key tok = key"
      and l: "\<forall>t\<in>set post. \<not> (take 1 t = ''-'' \<and> token_key t = key)"
      using split_list_last_prop[of toks "\<lambda>t. take 1 t = ''-'' \<and> token_key t = key"] by blast
    have "map_of (fst st') (token_key tok) = Some (token_value tok)"
      using parse_args_last_wins[of st pre tok post st'] assms(1) sp t l by simp
    then show ?thesis using True t by auto
  next
    case False
    then have "map_of (fst st') key = map_of (fst st) key"
      using parse_args_options_unchanged[OF assms(1), of key] by blast
    then show ?thesis using False assms(2) by (simp add: domIff)
  qed
  then have "dom (map_of (fst st')) = {token_key t | t. t \<in> set toks \<and> take 1 t = ''-''}"
    by (auto simp: set_eq_iff)
  then show ?thesis by (simp add: dom_map_of_conv_image_fst)
qed

lemma parse_arg_distinct:
  assumes "parse_arg st tok = Inr st'" and "distinct (map fst (fst st))"
  shows "distinct (map fst (fst st'))"
proof -
  obtain options cmdName cmdArgs where st: "st = (options, cmdName, cmdArgs)"
    using prod_cases3 by blast
  show ?thesis using assms
    by (auto simp: st parse_arg_def Let_def distinct_update split: if_splits)
qed

lemma parse_args_distinct:
  assumes "parse_args st toks = Inr st'" and "distinct (map fst (fst st))"
  shows "distinct (map fst (fst st'))"
  using assms
proof (induction toks arbitrary: st)
  case Nil
  then show ?case by simp
next
  case (Cons t toks)
  from Cons.prems(1) obtain st1 where s1: "parse_arg st t = Inr st1"
    and rest: "parse_args st1 toks = Inr st'"
    by (auto split: sum.splits)
  show ?case
    using Cons.IH[OF rest] parse_arg_distinct[OF s1 Cons.prems(2)] by simp
qed

text \<open>The command name and the positional arguments are the tokens without a leading
  \<open>-\<close>, in the order of the input.\<close>

lemma parse_arg_positionals:
  assumes "parse_arg (options, cmdName, cmdArgs) t = Inr (options1, cmdName1, cmdArgs1)"
    and "cmdName = [] \<longrightarrow> cmdArgs = []"
  shows "(cmdName1 = [] \<longrightarrow> cmdArgs1 = []) \<and>
         (if cmdName1 = [] then [] else cmdName1 # cmdArgs1) =
         (if cmdName = [] then [] else cmdName # cmdArgs) @ filter (\<lambda>t. take 1 t \<noteq> ''-'') [t]"
proof -
  have ne: "t \<noteq> []"
    using assms(1) by (auto simp: parse_arg_empty)
  show ?thesis
  proof (cases "take 1 t = ''-''")
    case True
    then show ?thesis using assms by (simp add: parse_arg_option)
  next
    case False
    then show ?thesis using assms ne by (auto simp: parse_arg_positional split: if_splits)
  qed
qed

lemma parse_args_positionals:
  assumes "parse_args (options, cmdName, cmdArgs) toks = Inr (options', cmdName', cmdArgs')"
    and "cmdName = [] \<longrightarrow> cmdArgs = []"
  shows "(cmdName' = [] \<longrightarrow> cmdArgs' = []) \<and>
         (if cmdName' = [] then [] else cmdName' # cmdArgs') =
         (if cmdName = [] then [] else cmdName # cmdArgs) @ filter (\<lambda>t. take 1 t \<noteq> ''-'') toks"
  using assms
proof (induction toks arbitrary: options cmdName cmdArgs)
  case Nil
  then show ?case by simp
next
  case (Cons t toks)
  from Cons.prems(1) obtain options1 cmdName1 cmdArgs1
    where s1: "parse_arg (options, cmdName, cmdArgs) t = Inr (options1, cmdName1, cmdArgs1)"
      and rest: "parse_args (options1, cmdName1, cmdArgs1) toks = Inr (options', cmdName', cmdArgs')"
    by (auto split: sum.splits)
  note one = parse_arg_positionals[OF s1 Cons.prems(2)]
  from one have inv: "cmdName1 = [] \<longrightarrow> cmdArgs1 = []" by blast
  note more = Cons.IH[OF rest inv]
  have "(if cmdName' = [] then [] else cmdName' # cmdArgs') =
        ((if cmdName = [] then [] else cmdName # cmdArgs) @ filter (\<lambda>t. take 1 t \<noteq> ''-'') [t])
          @ filter (\<lambda>t. take 1 t \<noteq> ''-'') toks"
    using one more by presburger
  also have "\<dots> = (if cmdName = [] then [] else cmdName # cmdArgs)
                     @ filter (\<lambda>t. take 1 t \<noteq> ''-'') (t # toks)"
    by simp
  finally show ?case using more by blast
qed

lemma not_supplies_iff:
  "(\<forall>v. \<not> supplies t key v) \<longleftrightarrow> \<not> (take 1 t = ''-'' \<and> token_key t = key)"
  by (auto simp: supplies_iff)

text \<open>
  C2.  Tokenization of the arguments after the executable name, when none of them is
  empty, ends without error in an option map in which a key has the value of the last
  option token that supplies it (\<open>-key=value\<close> gives \<open>value\<close>, a bare \<open>-key\<close> gives the
  empty string), whatever earlier tokens gave it; a key that no token supplies is
  absent from the map.
\<close>

theorem tokenization_option_map:
  assumes "[] \<notin> set (drop 1 argv)"
  shows "\<exists>options cmdName cmdArgs.
           parse_args ([], [], []) (drop 1 argv) = Inr (options, cmdName, cmdArgs) \<and>
           (\<forall>pre tok post key val.
              drop 1 argv = pre @ tok # post \<and> supplies tok key val \<and>
              (\<forall>t\<in>set post. \<forall>v. \<not> supplies t key v)
              \<longrightarrow> map_of options key = Some val) \<and>
           (\<forall>key. (\<forall>t\<in>set (drop 1 argv). \<forall>v. \<not> supplies t key v)
              \<longrightarrow> map_of options key = None)"
proof -
  from assms obtain st where p: "parse_args ([], [], []) (drop 1 argv) = Inr st"
    using parse_args_panic_iff by blast
  obtain options cmdName cmdArgs where st: "st = (options, cmdName, cmdArgs)"
    using prod_cases3 by blast
  have last: "map_of options key = Some val"
    if "drop 1 argv = pre @ tok # post" "supplies tok key val"
       "\<forall>t\<in>set post. \<forall>v. \<not> supplies t key v" for pre tok post key val
  proof -
    from that(2) have t: "take 1 tok = ''-''" "key = token_key tok" "val = token_value tok"
      by (simp_all add: supplies_iff)
    from that(3) have "\<forall>t\<in>set post. \<not> (take 1 t = ''-'' \<and> token_key t = token_key tok)"
      by (simp add: not_supplies_iff t(2))
    then show ?thesis
      using parse_args_last_wins[of "([], [], [])" pre tok post st] p that(1) t by (simp add: st)
  qed
  have none: "map_of options key = None"
    if "\<forall>t\<in>set (drop 1 argv). \<forall>v. \<not> supplies t key v" for key
  proof -
    from that have "\<forall>t\<in>set (drop 1 argv). \<not> (take 1 t = ''-'' \<and> token_key t = key)"
      by (simp add: not_supplies_iff)
    then show ?thesis
      using parse_args_options_unchanged[OF p, of key] by (simp add: st)
  qed
  from p st last none show ?thesis by blast
qed

theorem tokenization_option_map_witness:
  "\<exists>options cmdName cmdArgs.
     parse_args ([], [], []) (drop 1 [''myapp'', ''-a=1'', ''go'', ''-b'', ''-a=2'']) =
       Inr (options, cmdName, cmdArgs) \<and>
     map_of options ''a'' = Some ''2'' \<and> map_of options ''b'' = Some [] \<and>
     map_of options ''c'' = None"
proof -
  let ?argv = "[''myapp'', ''-a=1'', ''go'', ''-b'', ''-a=2'']"
  have ne: "[] \<notin> set (drop 1 ?argv)" by simp
  from tokenization_option_map[OF ne] obtain options cmdName cmdArgs
    where p: "parse_args ([], [], []) (drop 1 ?argv) = Inr (options, cmdName, cmdArgs)"
      and last: "\<And>pre tok post key val.
              drop 1 ?argv = pre @ tok # post \<and> supplies tok key val \<and>
              (\<forall>t\<in>set post. \<forall>v. \<not> supplies t key v)
              \<Longrightarrow> map_of options key = Some val"
      and none: "\<And>key. (\<forall>t\<in>set (drop 1 ?argv). \<forall>v. \<not> supplies t key v)
              \<Longrightarrow> map_of options key = None"
    by blast
  have a: "map_of options ''a'' = Some ''2''"
    by (rule last[of "[''-a=1'', ''go'', ''-b'']" "''-a=2''" "[]"]) (simp add: supplies_def)
  have b: "map_of options ''b'' = Some []"
    by (rule last[of "[''-a=1'', ''go'']" "''-b''" "[''-a=2'']"]) (simp add: supplies_def)
  have c: "map_of options ''c'' = None"
    by (rule none) (simp add: supplies_def)
  from p a b c show ?thesis by blast
qed

section \<open>Validation, dispatch and help\<close>

lemma isVarArgs_variadic: "isVarArgs args = variadic args"
  by (cases "args = []")
     (simp_all add: isVarArgs_def variadic_def strings_Index_zero_iff last_conv_nth
        del: strings_Index.simps)

lemma option_diagnostic_None_iff:
  "option_diagnostic allOptions key val = None \<longleftrightarrow> option_legal allOptions key val"
  by (auto simp: option_diagnostic_def option_legal_def split: option.splits)

lemma check_options_None_iff:
  "check_options allOptions kvs = None \<longleftrightarrow>
     (\<forall>(key, val)\<in>set kvs. option_legal allOptions key val)"
  by (induction kvs) (auto simp: option_diagnostic_None_iff[symmetric] split: option.splits)

lemma check_options_first:
  assumes "kvs = before @ (key, val) # after"
    and "\<forall>(k, v)\<in>set before. option_legal allOptions k v"
    and "\<not> option_legal allOptions key val"
  shows "check_options allOptions kvs = option_diagnostic allOptions key val"
  using assms(2) unfolding assms(1)
proof (induction before)
  case Nil
  then show ?case using assms(3)
    by (auto simp: option_diagnostic_None_iff[symmetric] split: option.splits)
next
  case (Cons kv before)
  then show ?case
    by (cases kv) (auto simp: option_diagnostic_None_iff[symmetric] split: option.splits)
qed

lemma show_nat_hd: "show_nat n \<noteq> [] \<and> (of_char (hd (show_nat n)) :: nat) < 58"
proof (induction n rule: show_nat.induct)
  case (1 n)
  show ?case
  proof (cases "n < 10")
    case True
    then have "show_nat n = [char_of (48 + n)]" by (subst show_nat.simps) simp
    then show ?thesis using True by simp
  next
    case False
    then have "show_nat n = show_nat (n div 10) @ [char_of (48 + n mod 10)]"
      by (subst show_nat.simps) simp
    then show ?thesis using 1 False by (simp add: hd_append)
  qed
qed

lemma arity_message_hd:
  "arity_message given cmdName args \<noteq> [] \<and>
   (of_char (hd (arity_message given cmdName args)) :: nat) < 58"
  using show_nat_hd[of given] by (simp add: arity_message_def hd_append)

lemma option_diagnostic_hd:
  "option_diagnostic allOptions key val = Some msg \<Longrightarrow> (of_char (hd msg) :: nat) \<ge> 58"
  by (auto simp: option_diagnostic_def split: option.splits if_splits)

lemma arity_message_not_diagnostic:
  "option_diagnostic allOptions key val \<noteq> Some (arity_message given cmdName args)"
  using arity_message_hd[of given cmdName args] option_diagnostic_hd by fastforce

lemma check_options_Some:
  "check_options allOptions kvs = Some msg \<Longrightarrow>
     \<exists>key val. (key, val) \<in> set kvs \<and> option_diagnostic allOptions key val = Some msg"
proof (induction kvs)
  case Nil
  then show ?case by simp
next
  case (Cons kv kvs)
  obtain k v where kv: "kv = (k, v)" by (cases kv)
  show ?case
  proof (cases "option_diagnostic allOptions k v")
    case None
    then have "check_options allOptions kvs = Some msg"
      using Cons.prems by (simp add: kv)
    then show ?thesis using Cons.IH by auto
  next
    case (Some m)
    then have "m = msg" using Cons.prems by (simp add: kv)
    then show ?thesis using Some kv by auto
  qed
qed

lemma Run_parsed:
  assumes "parse_args ([], [], []) (drop 1 argv) = Inr (options, cmdName, cmdArgs)"
    and "cmdName \<noteq> []" "cmdName \<noteq> ''help''" "map_of options ''help'' = None"
  shows "Run rangeOrder app argv =
     (case App_find app cmdName of
        None \<Rightarrow> Inr [Print (''Unrecognized command '' @ [apostrophe] @ cmdName @ [apostrophe, newline])]
      | Some cmd \<Rightarrow>
          if \<not> arity_ok (Args cmd) (length cmdArgs)
          then Inr [Print (arity_message (length cmdArgs) cmdName (Args cmd))]
          else
            (case check_options (App.Options app @ Command.Options cmd) (rangeOrder options) of
               Some msg \<Rightarrow> Inr [Print msg]
             | None \<Rightarrow>
                 (case (case Exec cmd of None \<Rightarrow> DefaultExec app | Some e \<Rightarrow> Some e) of
                    None \<Rightarrow> Inr [Print (''No exec function specified for command ''
                                        @ [apostrophe] @ cmdName @ [apostrophe, newline])]
                  | Some exec \<Rightarrow> Inr [Call exec cmdName cmdArgs options])))"
  using assms
  by (auto simp: Run_def Let_def isVarArgs_variadic arity_ok_def split: option.splits)

lemma writeBody_lines_no_call: "\<forall>e\<in>set (writeBody_lines lines first a b). \<not> is_call e"
  by (induction lines arbitrary: first) auto

lemma writeBody_no_call: "\<forall>e\<in>set (writeBody text a b). \<not> is_call e"
  by (simp add: writeBody_def writeBody_lines_no_call)

lemma showOptions_rows_no_call: "\<forall>e\<in>set (showOptions_rows longest options). \<not> is_call e"
  by (induction options) (auto simp: writeBody_no_call)

lemma showOptions_no_call: "\<forall>e\<in>set (showOptions options). \<not> is_call e"
  by (simp add: showOptions_def Let_def showOptions_rows_no_call)

lemma showCommands_rows_no_call: "\<forall>e\<in>set (showCommands_rows longestCmd cs). \<not> is_call e"
  by (induction cs) auto

lemma ShowHelp_no_call: "\<forall>e\<in>set (snd (ShowHelp app cmdName)). \<not> is_call e"
  by (auto simp: ShowHelp_def Let_def writeBody_no_call showOptions_no_call
        showCommands_rows_no_call split: option.splits)

lemma ShowHelp_app: "fst (ShowHelp app cmdName) = app"
  by (simp add: ShowHelp_def Let_def split: option.splits)

text \<open>
  C9.  \<open>ShowHelp\<close>, for a named command or for the application, leaves the App as it
  found it (its commands with their arguments and options, and the global options),
  calls no handler, and prints the same again when repeated on the App it leaves.
\<close>

theorem ShowHelp_frame:
  "fst (ShowHelp app cmdName) = app \<and>
   Commands (fst (ShowHelp app cmdName)) = Commands app \<and>
   App.Options (fst (ShowHelp app cmdName)) = App.Options app \<and>
   (\<forall>e\<in>set (snd (ShowHelp app cmdName)). \<not> is_call e) \<and>
   ShowHelp (fst (ShowHelp app cmdName)) cmdName = ShowHelp app cmdName"
  using ShowHelp_no_call[of app cmdName] by (simp add: ShowHelp_app)

lemma Run_help:
  assumes "parse_args ([], [], []) (drop 1 argv) = Inr (options, cmdName, cmdArgs)"
    and "cmdName = [] \<or> cmdName = ''help'' \<or> ''help'' \<in> fst ` set options"
  shows "Run rangeOrder app argv =
           Inr (snd (ShowHelp app (if cmdArgs \<noteq> [] then hd cmdArgs else cmdName)))"
proof -
  have "map_of options ''help'' \<noteq> None \<longleftrightarrow> ''help'' \<in> fst ` set options"
    by (simp add: map_of_eq_None_iff)
  then have "cmdName = [] \<or> cmdName = ''help'' \<or> map_of options ''help'' \<noteq> None"
    using assms(2) by blast
  then show ?thesis
    using assms(1) by (cases cmdArgs) (simp_all add: Run_def del: map_of_eq_None_iff)
qed

lemma parse_args_keys_supplied:
  assumes "parse_args ([], [], []) toks = Inr (options, cmdName, cmdArgs)"
  shows "fst ` set options = {key. \<exists>tok\<in>set toks. \<exists>val. supplies tok key val}"
proof -
  have "fst ` set options = {token_key t | t. t \<in> set toks \<and> take 1 t = ''-''}"
    using parse_args_keys[OF assms] by simp
  also have "\<dots> = {key. \<exists>tok\<in>set toks. \<exists>val. supplies tok key val}"
    by (auto simp: supplies_iff)
  finally show ?thesis .
qed

text \<open>
  C1.  Let the tokenization of the arguments give the option map \<open>options\<close>, the command
  name \<open>cmdName\<close> and the positional arguments \<open>cmdArgs\<close>, on a run that is not a help
  request and whose command name is registered as \<open>cmd\<close>.  If the number of positional
  arguments satisfies the arity rule of \<open>cmd\<close> and every entry of the option map is legal
  for the global options followed by the options of \<open>cmd\<close>, then \<open>Run\<close>, in whatever
  order it visits the map, does exactly one thing: it calls the handler of \<open>cmd\<close>, or the
  default handler when \<open>cmd\<close> has none, once, with \<open>cmdName\<close>, \<open>cmdArgs\<close> and \<open>options\<close>
  (when there is no handler at all it prints the diagnostic for that instead).  Here
  \<open>cmdName\<close> followed by \<open>cmdArgs\<close> are the tokens without a leading \<open>-\<close> in input
  order, and the keys of \<open>options\<close> are exactly the keys supplied by the option tokens,
  each once.
\<close>

theorem Run_dispatches_valid_invocation:
  assumes parse: "parse_args ([], [], []) (drop 1 argv) = Inr (options, cmdName, cmdArgs)"
    and nonhelp: "cmdName \<noteq> [] \<and> cmdName \<noteq> ''help'' \<and> ''help'' \<notin> fst ` set options"
    and found: "App_find app cmdName = Some cmd"
    and arity: "arity_ok (Args cmd) (length cmdArgs)"
    and legal: "\<forall>(key, val)\<in>set options.
                  option_legal (App.Options app @ Command.Options cmd) key val"
    and order: "mset (rangeOrder options) = mset options"
  shows "Run rangeOrder app argv =
           (case Exec cmd of
              Some exec \<Rightarrow> Inr [Call exec cmdName cmdArgs options]
            | None \<Rightarrow>
                (case DefaultExec app of
                   Some exec \<Rightarrow> Inr [Call exec cmdName cmdArgs options]
                 | None \<Rightarrow> Inr [Print (''No exec function specified for command ''
                                       @ [apostrophe] @ cmdName @ [apostrophe, newline])])) \<and>
         cmdName # cmdArgs = filter (\<lambda>tok. take 1 tok \<noteq> ''-'') (drop 1 argv) \<and>
         fst ` set options = {key. \<exists>tok\<in>set (drop 1 argv). \<exists>val. supplies tok key val} \<and>
         distinct (map fst options)"
proof -
  have nohelp: "map_of options ''help'' = None"
    using nonhelp by (simp add: map_of_eq_None_iff)
  have "set (rangeOrder options) = set options"
    using order by (rule mset_eq_setD)
  then have chk: "check_options (App.Options app @ Command.Options cmd) (rangeOrder options) = None"
    using legal by (simp add: check_options_None_iff)
  have run: "Run rangeOrder app argv =
           (case Exec cmd of
              Some exec \<Rightarrow> Inr [Call exec cmdName cmdArgs options]
            | None \<Rightarrow>
                (case DefaultExec app of
                   Some exec \<Rightarrow> Inr [Call exec cmdName cmdArgs options]
                 | None \<Rightarrow> Inr [Print (''No exec function specified for command ''
                                       @ [apostrophe] @ cmdName @ [apostrophe, newline])]))"
    using nonhelp
    by (simp add: Run_parsed[OF parse _ _ nohelp] found arity chk split: option.splits)
  have pos: "cmdName # cmdArgs = filter (\<lambda>tok. take 1 tok \<noteq> ''-'') (drop 1 argv)"
    using parse_args_positionals[OF parse] nonhelp by simp
  have keys: "fst ` set options = {key. \<exists>tok\<in>set (drop 1 argv). \<exists>val. supplies tok key val}"
    by (rule parse_args_keys_supplied[OF parse])
  have dist: "distinct (map fst options)"
    using parse_args_distinct[OF parse] by simp
  from run pos keys dist show ?thesis by simp
qed

theorem Run_dispatches_valid_invocation_witness:
  "Run id example_app [''myapp'', ''initialize'', ''-strength=2'', ''dir'', ''-clean''] =
     Inr [Call ''exec'' ''initialize'' [''dir''] [(''strength'', ''2''), (''clean'', [])]]"
proof -
  let ?argv = "[''myapp'', ''initialize'', ''-strength=2'', ''dir'', ''-clean'']"
  let ?options = "[(''strength'', ''2''), (''clean'', [])]"
  let ?cmd = "Commands example_app ! 1"
  have parse: "parse_args ([], [], []) (drop 1 ?argv) = Inr (?options, ''initialize'', [''dir''])"
    by (simp add: parse_arg_def)
  have nonhelp: "''initialize'' \<noteq> [] \<and> ''initialize'' \<noteq> ''help'' \<and> ''help'' \<notin> fst ` set ?options"
    by simp
  have found: "App_find example_app ''initialize'' = Some ?cmd"
    by (simp add: App_find_def example_app_def)
  have arity: "arity_ok (Args ?cmd) (length [''dir''])"
    by (simp add: arity_ok_def variadic_def example_app_def)
  have legal: "\<forall>(key, val)\<in>set ?options.
                 option_legal (App.Options example_app @ Command.Options ?cmd) key val"
    by (simp add: option_legal_def example_app_def)
  have order: "mset (id ?options) = mset ?options"
    by simp
  show ?thesis
    using Run_dispatches_valid_invocation[where rangeOrder = id, OF parse nonhelp found arity legal order]
    by (simp add: example_app_def)
qed

theorem ShowHelp_frame_witness:
  "fst (ShowHelp example_app ''start'') = example_app \<and>
   \<not> is_call (hd (snd (ShowHelp example_app ''start''))) \<and>
   ShowHelp (fst (ShowHelp example_app ''start'')) ''start'' = ShowHelp example_app ''start'' \<and>
   snd (ShowHelp example_app ''start'') =
     [Print ([newline] @ ''start port root-directory'' @ [newline, newline]),
      Print (''  Start the application.'' @ [newline])]"
proof -
  have "snd (ShowHelp example_app ''start'') =
     [Print ([newline] @ ''start port root-directory'' @ [newline, newline]),
      Print (''  Start the application.'' @ [newline])]"
    by (simp add: ShowHelp_def example_app_def App_find_def formatCmdArgs_def isVarArgs_def
          ShortDescription_def ExtraDescription_def writeBody_def formatTextIntoLines_def
          spaces_def numeral_2_eq_2)
  then show ?thesis
    using ShowHelp_frame[of example_app "''start''"] by simp
qed

lemma noexec_not_arity_message:
  "''No exec function specified for command '' @ rest \<noteq> arity_message given cmdName args"
proof
  assume eq: "''No exec function specified for command '' @ rest = arity_message given cmdName args"
  have "hd (arity_message given cmdName args) = CHR ''N''"
    unfolding eq[symmetric] by simp
  then show False
    using arity_message_hd[of given cmdName args] by simp
qed

text \<open>
  C4.  On a run that is not a help request and whose command name is registered as
  \<open>cmd\<close>, \<open>Run\<close> stops at the arity check, printing the usage message and nothing else
  (so calling no handler), exactly when the arity rule is broken: for a declared list
  ending in the variadic marker, when fewer than the declared count minus one
  positional arguments are given; for any other list, when their number is not the
  declared count.
\<close>

theorem Run_arity_check:
  assumes parse: "parse_args ([], [], []) (drop 1 argv) = Inr (options, cmdName, cmdArgs)"
    and nonhelp: "cmdName \<noteq> [] \<and> cmdName \<noteq> ''help'' \<and> ''help'' \<notin> fst ` set options"
    and found: "App_find app cmdName = Some cmd"
  shows "(Run rangeOrder app argv =
            Inr [Print (arity_message (length cmdArgs) cmdName (Args cmd))]) =
         (if variadic (Args cmd) then length cmdArgs < length (Args cmd) - 1
          else length cmdArgs \<noteq> length (Args cmd))"
proof -
  have nohelp: "map_of options ''help'' = None"
    using nonhelp by (simp add: map_of_eq_None_iff)
  note run = Run_parsed[OF parse _ _ nohelp, of rangeOrder app]
  let ?usage = "arity_message (length cmdArgs) cmdName (Args cmd)"
  let ?all = "App.Options app @ Command.Options cmd"
  show ?thesis
  proof (cases "arity_ok (Args cmd) (length cmdArgs)")
    case False
    then have "Run rangeOrder app argv = Inr [Print ?usage]"
      using run nonhelp found by simp
    moreover have "if variadic (Args cmd) then length cmdArgs < length (Args cmd) - 1
          else length cmdArgs \<noteq> length (Args cmd)"
      using False by (simp add: arity_ok_def split: if_splits)
    ultimately show ?thesis by (simp only: simp_thms)
  next
    case True
    have "Run rangeOrder app argv \<noteq> Inr [Print ?usage]"
    proof (cases "check_options ?all (rangeOrder options)")
      case (Some msg)
      then obtain key val where "option_diagnostic ?all key val = Some msg"
        using check_options_Some by blast
      then have "msg \<noteq> ?usage"
        using arity_message_not_diagnostic by metis
      moreover have "Run rangeOrder app argv = Inr [Print msg]"
        using run nonhelp found True Some by simp
      ultimately show ?thesis by simp
    next
      case None
      show ?thesis
      proof (cases "case Exec cmd of None \<Rightarrow> DefaultExec app | Some e \<Rightarrow> Some e")
        case N2: None
        have "Run rangeOrder app argv =
                Inr [Print (''No exec function specified for command ''
                            @ [apostrophe] @ cmdName @ [apostrophe, newline])]"
          using run nonhelp found True None N2 by simp
        then show ?thesis using noexec_not_arity_message by simp
      next
        case (Some exec)
        have "Run rangeOrder app argv = Inr [Call exec cmdName cmdArgs options]"
          using run nonhelp found True None Some by simp
        then show ?thesis by simp
      qed
    qed
    moreover have "\<not> (if variadic (Args cmd) then length cmdArgs < length (Args cmd) - 1
          else length cmdArgs \<noteq> length (Args cmd))"
      using True by (simp add: arity_ok_def split: if_splits)
    ultimately show ?thesis by (simp only: simp_thms)
  qed
qed

theorem Run_arity_check_witness:
  "Run id \<lparr>App.Description = [], DefaultExec = Some ''exec'',
            Commands = [\<lparr>Name = ''add'', Command.Description = [], Args = [''a'', ''...items''],
                         Command.Options = [], Exec = None\<rparr>],
            App.Options = []\<rparr> [''prog'', ''add''] =
     Inr [Print (''0 arguments given, but add needs '' @ [apostrophe]
                 @ ''a items1 items2 items3...'' @ [apostrophe, newline])] \<and>
   Run id \<lparr>App.Description = [], DefaultExec = Some ''exec'',
            Commands = [\<lparr>Name = ''add'', Command.Description = [], Args = [''a'', ''...items''],
                         Command.Options = [], Exec = None\<rparr>],
            App.Options = []\<rparr> [''prog'', ''add'', ''x''] \<noteq>
     Inr [Print (arity_message 1 ''add'' [''a'', ''...items''])]"
proof -
  let ?cmd = "\<lparr>Name = ''add'', Command.Description = [], Args = [''a'', ''...items''],
               Command.Options = [], Exec = None :: string option\<rparr>"
  let ?app = "\<lparr>App.Description = [], DefaultExec = Some ''exec'', Commands = [?cmd],
               App.Options = []\<rparr>"
  have p0: "parse_args ([], [], []) (drop 1 [''prog'', ''add'']) = Inr ([], ''add'', [])"
    by (simp add: parse_arg_def)
  have p1: "parse_args ([], [], []) (drop 1 [''prog'', ''add'', ''x'']) = Inr ([], ''add'', [''x''])"
    by (simp add: parse_arg_def)
  have nonhelp: "''add'' \<noteq> [] \<and> ''add'' \<noteq> ''help'' \<and> ''help'' \<notin> fst ` set []"
    by simp
  have found: "App_find ?app ''add'' = Some ?cmd"
    by (simp add: App_find_def)
  have v: "variadic (Args ?cmd)"
    by (simp add: variadic_def)
  have msg: "arity_message 0 ''add'' [''a'', ''...items''] =
               ''0 arguments given, but add needs '' @ [apostrophe]
                 @ ''a items1 items2 items3...'' @ [apostrophe, newline]"
    by code_simp
  have a: "Run id ?app [''prog'', ''add''] = Inr [Print (arity_message 0 ''add'' [''a'', ''...items''])]"
    using Run_arity_check[where rangeOrder = id, OF p0 nonhelp found] v by (simp del: Run_def)
  have b: "Run id ?app [''prog'', ''add'', ''x''] \<noteq>
             Inr [Print (arity_message 1 ''add'' [''a'', ''...items''])]"
    using Run_arity_check[where rangeOrder = id, OF p1 nonhelp found] v by simp
  from a b show ?thesis unfolding msg by blast
qed

text \<open>
  C5.  On a run that is not a help request, whose command name is registered as \<open>cmd\<close>
  and which passes the arity check, if some entry of the option map is not legal for
  the global options followed by the options of \<open>cmd\<close>, then \<open>Run\<close> stops at the first
  such entry in the order in which it visits the map, and all it does is print the
  diagnostic of that entry: that the option is unrecognized when no declared option has
  the key, that it takes no value when the first declared option with the key is
  boolean and a value was given, that it needs a value when that option is
  value-carrying and none was given.  The entries after it play no part, and no handler
  is called.
\<close>

theorem Run_option_check:
  assumes parse: "parse_args ([], [], []) (drop 1 argv) = Inr (options, cmdName, cmdArgs)"
    and nonhelp: "cmdName \<noteq> [] \<and> cmdName \<noteq> ''help'' \<and> ''help'' \<notin> fst ` set options"
    and found: "App_find app cmdName = Some cmd"
    and arity: "arity_ok (Args cmd) (length cmdArgs)"
    and order: "mset (rangeOrder options) = mset options"
    and bad: "\<exists>(key, val)\<in>set options.
                \<not> option_legal (App.Options app @ Command.Options cmd) key val"
  shows "\<exists>before key val after.
           rangeOrder options = before @ (key, val) # after \<and>
           (\<forall>(k, v)\<in>set before. option_legal (App.Options app @ Command.Options cmd) k v) \<and>
           \<not> option_legal (App.Options app @ Command.Options cmd) key val \<and>
           map_of options key = Some val \<and>
           Run rangeOrder app argv =
             Inr [Print
               (case findOption (App.Options app @ Command.Options cmd) key of
                  None \<Rightarrow> ''Unrecognized option '' @ key @ [newline]
                | Some opt \<Rightarrow>
                    if Value opt = []
                    then ''Option '' @ Key opt @ '' does not take a value. Simply use -''
                           @ Key opt @ [newline]
                    else ''Option '' @ Key opt @ '' needs a value. Use -'' @ Key opt @ ''=''
                           @ Value opt @ [newline])]"
proof -
  let ?all = "App.Options app @ Command.Options cmd"
  let ?illegal = "\<lambda>kv. \<not> option_legal ?all (fst kv) (snd kv)"
  have nohelp: "map_of options ''help'' = None"
    using nonhelp by (simp add: map_of_eq_None_iff)
  have sets: "set (rangeOrder options) = set options"
    using order by (rule mset_eq_setD)
  from bad obtain k v where "(k, v) \<in> set options" and "\<not> option_legal ?all k v"
    by auto
  then have "(k, v) \<in> set (rangeOrder options)" and "?illegal (k, v)"
    using sets by simp_all
  then have "\<exists>kv\<in>set (rangeOrder options). ?illegal kv"
    by (rule bexI[rotated])
  then obtain before kv after where sp: "rangeOrder options = before @ kv # after"
    and ill: "?illegal kv" and first: "\<forall>x\<in>set before. \<not> ?illegal x"
    using split_list_first_prop[of "rangeOrder options" ?illegal] by blast
  obtain key val where kv: "kv = (key, val)"
    by (cases kv)
  have ok: "\<forall>(k, v)\<in>set before. option_legal ?all k v"
    using first by auto
  have nl: "\<not> option_legal ?all key val"
    using ill kv by simp
  have "(key, val) \<in> set options"
    using sp kv sets by auto
  moreover have "distinct (map fst options)"
    using parse_args_distinct[OF parse] by simp
  ultimately have present: "map_of options key = Some val"
    by simp
  have chk: "check_options ?all (rangeOrder options) = option_diagnostic ?all key val"
    using check_options_first[OF sp[unfolded kv] ok nl] .
  have diag: "option_diagnostic ?all key val =
     Some (case findOption ?all key of
             None \<Rightarrow> ''Unrecognized option '' @ key @ [newline]
           | Some opt \<Rightarrow>
               if Value opt = []
               then ''Option '' @ Key opt @ '' does not take a value. Simply use -''
                      @ Key opt @ [newline]
               else ''Option '' @ Key opt @ '' needs a value. Use -'' @ Key opt @ ''=''
                      @ Value opt @ [newline])"
  proof (cases "findOption ?all key")
    case None
    then show ?thesis by (simp add: option_diagnostic_def)
  next
    case (Some opt)
    then have "(Value opt = []) \<noteq> (val = [])"
      using nl by (simp add: option_legal_def)
    then show ?thesis using Some
      by (cases "Value opt = []") (simp_all add: option_diagnostic_def)
  qed
  have "Run rangeOrder app argv =
          Inr [Print (case findOption ?all key of
             None \<Rightarrow> ''Unrecognized option '' @ key @ [newline]
           | Some opt \<Rightarrow>
               if Value opt = []
               then ''Option '' @ Key opt @ '' does not take a value. Simply use -''
                      @ Key opt @ [newline]
               else ''Option '' @ Key opt @ '' needs a value. Use -'' @ Key opt @ ''=''
                      @ Value opt @ [newline])]"
    using nonhelp by (simp add: Run_parsed[OF parse _ _ nohelp] found arity chk diag)
  with sp kv ok nl present show ?thesis by blast
qed

theorem Run_option_check_witness:
  "Run id example_app [''myapp'', ''initialize'', ''-strength'', ''dir''] =
     Inr [Print (''Option strength needs a value. Use -strength=howstrong'' @ [newline])]"
proof -
  let ?argv = "[''myapp'', ''initialize'', ''-strength'', ''dir'']"
  let ?options = "[(''strength'', [])]"
  let ?cmd = "Commands example_app ! 1"
  have parse: "parse_args ([], [], []) (drop 1 ?argv) = Inr (?options, ''initialize'', [''dir''])"
    by (simp add: parse_arg_def)
  have nonhelp: "''initialize'' \<noteq> [] \<and> ''initialize'' \<noteq> ''help'' \<and> ''help'' \<notin> fst ` set ?options"
    by simp
  have found: "App_find example_app ''initialize'' = Some ?cmd"
    by (simp add: App_find_def example_app_def)
  have arity: "arity_ok (Args ?cmd) (length [''dir''])"
    by (simp add: arity_ok_def variadic_def example_app_def)
  have order: "mset (id ?options) = mset ?options"
    by simp
  have bad: "\<exists>(key, val)\<in>set ?options.
               \<not> option_legal (App.Options example_app @ Command.Options ?cmd) key val"
    by (simp add: option_legal_def example_app_def)
  show ?thesis
    using Run_option_check[where rangeOrder = id, OF parse nonhelp found arity order bad]
    by (auto simp: Cons_eq_append_conv example_app_def)
qed

text \<open>
  C6.  \<open>Run\<close> gives its caller no exit code.  On \<open>myapp bogus\<close>, a command name that is not
  registered, all that the run does is print the diagnostic and return; it hands back
  no 1.  On \<open>myapp start /folder1/folder2 8669\<close> all that it does is call the handler;
  the handler has no result and the run passes none on.  (\<open>Run\<close> is declared as
  \<open>func (app *App) Run()\<close> and a handler as \<open>func(cmd string, args []string, options
  map[string]string)\<close>, both without a result, while the tests of the package compare
  \<open>app.Run()\<close> with 1, pass it to \<open>os.Exit\<close> and give \<open>exec\<close> the result type \<open>int\<close>.)
\<close>

theorem Run_gives_no_exit_code:
  "Run id example_app [''myapp'', ''bogus''] =
     Inr [Print (''Unrecognized command '' @ [apostrophe] @ ''bogus'' @ [apostrophe, newline])] \<and>
   Run id example_app [''myapp'', ''start'', ''/folder1/folder2'', ''8669''] =
     Inr [Call ''exec'' ''start'' [''/folder1/folder2'', ''8669''] []]"
  by (simp add: Run_def parse_arg_def App_find_def example_app_def isVarArgs_def)

theorem initialize_clean_strength_counterexample:
  "Run id example_app [''myapp'', ''initialize'', ''-clean'', ''strength=2''] =
     Inr [Call ''exec'' ''initialize'' [''strength=2''] [(''clean'', [])]] \<and>
   Run id example_app [''myapp'', ''initialize'', ''-clean'', ''strength=2''] \<noteq>
     Inr [Print (arity_message 0 ''initialize'' [''root-directory''])]"
  by (simp add: Run_def parse_arg_def App_find_def example_app_def isVarArgs_def
        option_diagnostic_def)

text \<open>
  C7, as the code has it.  In the example application, \<open>initialize -clean strength=2\<close>
  passes the arity check: \<open>strength=2\<close> has no leading \<open>-\<close>, so it is the one positional
  argument that \<open>initialize\<close> requires, and only \<open>-clean\<close> is an option.  The run is one
  call of the handler with \<open>initialize\<close>, the argument \<open>strength=2\<close> and the option map
  that holds \<open>clean\<close> alone.  Written as an option, \<open>initialize -clean -strength=2\<close>, it
  does fail the arity check with 0 arguments given, and no handler is called: option
  tokens are not counted as positional arguments.
\<close>

theorem initialize_clean_strength:
  assumes order: "\<And>kvs. mset (rangeOrder kvs) = mset kvs"
  shows "Run rangeOrder example_app [''myapp'', ''initialize'', ''-clean'', ''strength=2''] =
           Inr [Call ''exec'' ''initialize'' [''strength=2''] [(''clean'', [])]] \<and>
         Run rangeOrder example_app [''myapp'', ''initialize'', ''-clean'', ''-strength=2''] =
           Inr [Print (''0 arguments given, but initialize needs '' @ [apostrophe]
                       @ ''root-directory'' @ [apostrophe, newline])]"
proof -
  have one: "rangeOrder [(''clean'', [])] = [(''clean'', [])]"
    using order[of "[(''clean'', [])]"] by simp
  have msg: "arity_message 0 ''initialize'' [''root-directory''] =
               ''0 arguments given, but initialize needs '' @ [apostrophe]
                       @ ''root-directory'' @ [apostrophe, newline]"
    by code_simp
  have a: "Run rangeOrder example_app [''myapp'', ''initialize'', ''-clean'', ''strength=2''] =
           Inr [Call ''exec'' ''initialize'' [''strength=2''] [(''clean'', [])]]"
    by (simp add: Run_def parse_arg_def App_find_def example_app_def isVarArgs_def
          option_diagnostic_def one)
  have b: "Run rangeOrder example_app [''myapp'', ''initialize'', ''-clean'', ''-strength=2''] =
           Inr [Print (arity_message 0 ''initialize'' [''root-directory''])]"
    by (simp add: Run_def parse_arg_def App_find_def example_app_def isVarArgs_def)
  from a b show ?thesis unfolding msg by simp
qed

theorem initialize_clean_strength_witness:
  "Run id example_app [''myapp'', ''initialize'', ''-clean'', ''strength=2''] =
     Inr [Call ''exec'' ''initialize'' [''strength=2''] [(''clean'', [])]] \<and>
   Run id example_app [''myapp'', ''initialize'', ''-clean'', ''-strength=2''] =
     Inr [Print (''0 arguments given, but initialize needs '' @ [apostrophe]
                 @ ''root-directory'' @ [apostrophe, newline])]"
proof -
  have "\<And>kvs :: (string \<times> string) list. mset (id kvs) = mset kvs"
    by simp
  then show ?thesis
    by (rule initialize_clean_strength)
qed

section \<open>Word wrap\<close>

lemma strings_Split_nonempty: "strings_Split s sep \<noteq> []"
  by (induction s) (auto split: list.splits)

lemma strings_Split_no_sep: "w \<in> set (strings_Split s sep) \<Longrightarrow> sep \<notin> set w"
  by (induction s arbitrary: w) (auto split: list.splits if_splits)

lemma strings_Join_Cons:
  "ys \<noteq> [] \<Longrightarrow> strings_Join (x # ys) sep = x @ sep @ strings_Join ys sep"
  by (cases ys) simp_all

lemma strings_Join_Split: "strings_Join (strings_Split s sep) [sep] = s"
proof (induction s)
  case Nil
  show ?case by simp
next
  case (Cons c cs)
  show ?case
  proof (cases "c = sep")
    case True
    then show ?thesis
      using Cons by (simp add: strings_Join_Cons strings_Split_nonempty)
  next
    case False
    obtain w ws where sp: "strings_Split cs sep = w # ws"
      using strings_Split_nonempty[of cs sep] by (cases "strings_Split cs sep") auto
    show ?thesis
      using Cons False sp by (cases ws) simp_all
  qed
qed

lemma strings_Join_snoc2:
  "strings_Join (xs @ [a, b]) sep = strings_Join (xs @ [a @ sep @ b]) sep"
proof (induction xs)
  case Nil
  show ?case by simp
next
  case (Cons x xs)
  then show ?case by (simp add: strings_Join_Cons)
qed

lemma strings_Join_snoc_empty:
  "xs \<noteq> [] \<Longrightarrow> strings_Join (xs @ [[]]) sep = strings_Join xs sep @ sep"
proof (induction xs)
  case Nil
  then show ?case by simp
next
  case (Cons x xs)
  then show ?case by (cases "xs = []") (simp_all add: strings_Join_Cons)
qed

text \<open>The lines flushed in the loop are longer than the width; what is left after the
  last word is not.\<close>

lemma wrap_words_lengths:
  assumes "wrap_words ws line lines = (line', lines')"
    and "\<forall>l\<in>set lines. 55 < length l"
  shows "(\<forall>l\<in>set lines'. 55 < length l) \<and> (ws \<noteq> [] \<longrightarrow> length line' \<le> 55)"
  using assms
proof (induction ws line lines rule: wrap_words.induct)
  case (1 line lines)
  then show ?case by simp
next
  case (2 w ws line lines)
  show ?case
  proof (cases "55 < length (line @ w)")
    case True
    then have "wrap_words ws [] (lines @ [line @ w]) = (line', lines')"
      using "2.prems"(1) by simp
    moreover have "\<forall>l\<in>set (lines @ [line @ w]). 55 < length l"
      using True "2.prems"(2) by simp
    ultimately have "(\<forall>l\<in>set lines'. 55 < length l) \<and> (ws \<noteq> [] \<longrightarrow> length line' \<le> 55)"
      using "2.IH"(1)[OF True] by blast
    moreover have "ws = [] \<Longrightarrow> line' = []"
      using \<open>wrap_words ws [] (lines @ [line @ w]) = (line', lines')\<close> by simp
    ultimately show ?thesis by (cases "ws = []") simp_all
  next
    case False
    show ?thesis
    proof (cases "ws = []")
      case True
      then show ?thesis using False "2.prems" by auto
    next
      case F2: False
      then have "wrap_words ws (line @ w @ '' '') lines = (line', lines')"
        using False "2.prems"(1) by simp
      then show ?thesis
        using "2.IH"(2)[OF False F2] "2.prems"(2) F2 by blast
    qed
  qed
qed

text \<open>The lines, joined by single spaces, are the words joined by single spaces, but
  for a space lost when an empty last word follows a flushed line.\<close>

lemma wrap_words_join:
  assumes "wrap_words ws line lines = (line', lines')" and "ws \<noteq> []"
  shows "strings_Join (lines' @ [line']) '' '' =
           strings_Join (lines @ [line @ strings_Join ws '' '']) '' '' \<or>
         (line' = [] \<and> lines' \<noteq> [] \<and>
          strings_Join lines' '' '' = strings_Join (lines @ [line @ strings_Join ws '' '']) '' '')"
  using assms
proof (induction ws line lines rule: wrap_words.induct)
  case (1 line lines)
  then show ?case by simp
next
  case (2 w ws line lines)
  show ?case
  proof (cases "ws = []")
    case True
    then show ?thesis using "2.prems"(1) by (auto split: if_splits)
  next
    case False
    have join: "strings_Join (w # ws) '' '' = w @ '' '' @ strings_Join ws '' ''"
      using False by (rule strings_Join_Cons)
    show ?thesis
    proof (cases "55 < length (line @ w)")
      case True
      then have "wrap_words ws [] (lines @ [line @ w]) = (line', lines')"
        using "2.prems"(1) by simp
      from "2.IH"(1)[OF True this False]
      have "strings_Join (lines' @ [line']) '' '' =
              strings_Join ((lines @ [line @ w]) @ [[] @ strings_Join ws '' '']) '' '' \<or>
            (line' = [] \<and> lines' \<noteq> [] \<and>
             strings_Join lines' '' '' =
               strings_Join ((lines @ [line @ w]) @ [[] @ strings_Join ws '' '']) '' '')" .
      moreover have "strings_Join ((lines @ [line @ w]) @ [[] @ strings_Join ws '' '']) '' '' =
                     strings_Join (lines @ [line @ strings_Join (w # ws) '' '']) '' ''"
        using strings_Join_snoc2[of lines "line @ w" "strings_Join ws '' ''" "'' ''"]
        by (simp add: join)
      ultimately show ?thesis by simp
    next
      case F2: False
      then have "wrap_words ws (line @ w @ '' '') lines = (line', lines')"
        using False "2.prems"(1) by simp
      from "2.IH"(2)[OF F2 False this False]
      show ?thesis by (simp add: join)
    qed
  qed
qed

lemma within_width_append_word:
  assumes "within_width line" and "CHR '' '' \<notin> set w"
  shows "within_width (line @ w)"
  unfolding within_width_def
proof (intro allI impI)
  fix p q
  assume eq: "line @ w = p @ '' '' @ q"
  then obtain us where "(line = p @ us \<and> us @ w = '' '' @ q) \<or> (line @ us = p \<and> w = us @ '' '' @ q)"
    by (auto simp: append_eq_append_conv2)
  then show "length p \<le> 55"
  proof
    assume a: "line = p @ us \<and> us @ w = '' '' @ q"
    show ?thesis
    proof (cases us)
      case Nil
      then show ?thesis using a assms(2) by auto
    next
      case (Cons u us')
      then have "line = p @ '' '' @ us'" using a by simp
      then show ?thesis using assms(1) by (auto simp: within_width_def)
    qed
  next
    assume "line @ us = p \<and> w = us @ '' '' @ q"
    then show ?thesis using assms(2) by auto
  qed
qed

lemma within_width_append_space:
  assumes "within_width line" and "length line \<le> 55"
  shows "within_width (line @ '' '')"
  unfolding within_width_def
proof (intro allI impI)
  fix p q
  assume eq: "line @ '' '' = p @ '' '' @ q"
  show "length p \<le> 55"
  proof (cases "q = []")
    case True
    then show ?thesis using eq assms(2) by simp
  next
    case False
    then obtain q' where "q = q' @ '' ''"
      using eq by (metis append_butlast_last_id last_appendR last_snoc append_assoc
            not_Cons_self2 append_Cons append_Nil)
    then have "line = p @ '' '' @ q'"
      using eq by simp
    then show ?thesis using assms(1) by (auto simp: within_width_def)
  qed
qed

lemma wrap_words_within_width:
  assumes "wrap_words ws line lines = (line', lines')"
    and "\<forall>w\<in>set ws. CHR '' '' \<notin> set w"
    and "within_width line" and "\<forall>l\<in>set lines. within_width l"
  shows "within_width line' \<and> (\<forall>l\<in>set lines'. within_width l)"
  using assms
proof (induction ws line lines rule: wrap_words.induct)
  case (1 line lines)
  then show ?case by simp
next
  case (2 w ws line lines)
  have lw: "within_width (line @ w)"
    using within_width_append_word "2.prems"(2,3) by simp
  have rest: "\<forall>w\<in>set ws. CHR '' '' \<notin> set w"
    using "2.prems"(2) by simp
  have empty: "within_width []"
    by (simp add: within_width_def)
  show ?case
  proof (cases "55 < length (line @ w)")
    case True
    then have "wrap_words ws [] (lines @ [line @ w]) = (line', lines')"
      using "2.prems"(1) by simp
    moreover have "\<forall>l\<in>set (lines @ [line @ w]). within_width l"
      using lw "2.prems"(4) by simp
    ultimately show ?thesis
      using "2.IH"(1)[OF True _ rest empty] by blast
  next
    case False
    show ?thesis
    proof (cases "ws = []")
      case True
      then show ?thesis using False "2.prems"(1,4) lw by auto
    next
      case F2: False
      then have "wrap_words ws (line @ w @ '' '') lines = (line', lines')"
        using False "2.prems"(1) by simp
      moreover have "within_width (line @ w @ '' '')"
        using within_width_append_space[OF lw] False by simp
      ultimately show ?thesis
        using "2.IH"(2)[OF False F2 _ rest _ "2.prems"(4)] by blast
    qed
  qed
qed

theorem formatTextIntoLines_counterexample:
  "formatTextIntoLines
     ''Specify the authaus config file. A pseudo file called !TESTCONFIG1 is used by the REST test suite''
     3 20 =
     [''Specify the authaus config file. A pseudo file called !TESTCONFIG1'',
      ''is used by the REST test suite''] \<and>
   length ''Specify the authaus config file. A pseudo file called !TESTCONFIG1'' = 66 \<and>
   map length (strings_Split
     ''Specify the authaus config file. A pseudo file called !TESTCONFIG1'' CHR '' '') =
     [7, 3, 7, 6, 5, 1, 6, 4, 6, 12]"
  by code_simp

text \<open>
  C8, as the code has it.  \<open>formatTextIntoLines\<close> splits the text at single spaces into
  words and appends them in order to the current line with one space in between.  It
  flushes the line right after appending the word that makes it longer than 55
  characters, that word included, and starts a new line; what is left after the last
  word is the last line.  So the lines joined by single spaces give back the text (but
  for one trailing space when the text ends in a space right after a flushed line): no
  word is split, reordered or dropped.  Every line but the last is longer than 55
  characters, no line is empty, and in every line what stands before any of its spaces
  is at most 55 characters long: a line ends with the first word that takes it past the
  width.
\<close>

theorem formatTextIntoLines_lines:
  "(strings_Join (formatTextIntoLines text firstLineIndent otherLinesIndent) '' '' = text \<or>
    strings_Join (formatTextIntoLines text firstLineIndent otherLinesIndent) '' '' @ '' '' = text) \<and>
   (\<forall>l\<in>set (butlast (formatTextIntoLines text firstLineIndent otherLinesIndent)).
      55 < length l) \<and>
   (\<forall>l\<in>set (formatTextIntoLines text firstLineIndent otherLinesIndent).
      l \<noteq> [] \<and> (\<forall>p q. l = p @ '' '' @ q \<longrightarrow> length p \<le> 55))"
proof -
  let ?ws = "strings_Split text CHR '' ''"
  obtain line' lines' where w: "wrap_words ?ws [] [] = (line', lines')"
    by (cases "wrap_words ?ws [] []")
  let ?R = "if length line' \<noteq> 0 then lines' @ [line'] else lines'"
  have R: "formatTextIntoLines text firstLineIndent otherLinesIndent = ?R"
    by (simp add: formatTextIntoLines_def w)
  have ne: "?ws \<noteq> []"
    by (rule strings_Split_nonempty)
  have orig: "strings_Join ?ws '' '' = text"
    by (rule strings_Join_Split)
  have len: "(\<forall>l\<in>set lines'. 55 < length l) \<and> length line' \<le> 55"
    using wrap_words_lengths[OF w] ne by simp
  have "strings_Join (lines' @ [line']) '' '' = text \<or>
        (line' = [] \<and> lines' \<noteq> [] \<and> strings_Join lines' '' '' = text)"
    using wrap_words_join[OF w ne] orig by simp
  then have join: "strings_Join ?R '' '' = text \<or> strings_Join ?R '' '' @ '' '' = text"
  proof
    assume a: "strings_Join (lines' @ [line']) '' '' = text"
    show ?thesis
    proof (cases "line' = []")
      case False
      then show ?thesis using a by simp
    next
      case True
      show ?thesis
      proof (cases "lines' = []")
        case T2: True
        then show ?thesis using a True by simp
      next
        case False
        then show ?thesis using a True strings_Join_snoc_empty[OF False, of "'' ''"] by simp
      qed
    qed
  next
    assume "line' = [] \<and> lines' \<noteq> [] \<and> strings_Join lines' '' '' = text"
    then show ?thesis by simp
  qed
  have long: "\<forall>l\<in>set (butlast ?R). 55 < length l"
    using len by (auto dest: in_set_butlastD)
  have nonempty: "\<forall>l\<in>set ?R. l \<noteq> []"
    using len by auto
  have "within_width line' \<and> (\<forall>l\<in>set lines'. within_width l)"
    using wrap_words_within_width[OF w] strings_Split_no_sep[of _ "text" "CHR '' ''"]
    by (simp add: within_width_def)
  then have width: "\<forall>l\<in>set ?R. \<forall>p q. l = p @ '' '' @ q \<longrightarrow> length p \<le> 55"
    by (auto simp: within_width_def)
  from join long nonempty width show ?thesis
    unfolding R by blast
qed

theorem formatTextIntoLines_lines_witness:
  "strings_Join
     [''Specify the authaus config file. A pseudo file called !TESTCONFIG1'',
      ''is used by the REST test suite''] '' '' =
     ''Specify the authaus config file. A pseudo file called !TESTCONFIG1 is used by the REST test suite'' \<and>
   55 < length ''Specify the authaus config file. A pseudo file called !TESTCONFIG1'' \<and>
   length ''Specify the authaus config file. A pseudo file called'' \<le> 55"
proof -
  let ?text = "''Specify the authaus config file. A pseudo file called !TESTCONFIG1 is used by the REST test suite''"
  have ev: "formatTextIntoLines ?text 3 20 =
     [''Specify the authaus config file. A pseudo file called !TESTCONFIG1'',
      ''is used by the REST test suite'']"
    by code_simp
  note t = formatTextIntoLines_lines[of ?text 3 20, unfolded ev]
  have j: "strings_Join
     [''Specify the authaus config file. A pseudo file called !TESTCONFIG1'',
      ''is used by the REST test suite''] '' '' = ?text"
    using t by simp
  have l: "55 < length ''Specify the authaus config file. A pseudo file called !TESTCONFIG1''"
    using t by simp
  have "\<forall>p q. ''Specify the authaus config file. A pseudo file called !TESTCONFIG1'' = p @ '' '' @ q
          \<longrightarrow> length p \<le> 55"
    using t by simp
  then have "length ''Specify the authaus config file. A pseudo file called'' \<le> 55"
    by (rule allE[of _ "''Specify the authaus config file. A pseudo file called''"]) simp
  with j l show ?thesis by blast
qed

section \<open>Help text\<close>

lemma find_in_find: "find_in cs cmdName = List.find (\<lambda>c. Name c = cmdName) cs"
  by (induction cs) auto

lemma strings_Split_first: "strings_Split s sep ! 0 = takeWhile (\<lambda>x. x \<noteq> sep) s"
proof (induction s)
  case Nil
  show ?case by simp
next
  case (Cons x xs)
  obtain w ws where sp: "strings_Split xs sep = w # ws"
    using strings_Split_nonempty[of xs sep] by (cases "strings_Split xs sep") auto
  show ?case using Cons sp by simp
qed

lemma strings_Split_rest:
  "strings_Join (drop 1 (strings_Split s sep)) [sep] = drop 1 (dropWhile (\<lambda>x. x \<noteq> sep) s)"
proof (induction s)
  case Nil
  show ?case by simp
next
  case (Cons x xs)
  obtain w ws where sp: "strings_Split xs sep = w # ws"
    using strings_Split_nonempty[of xs sep] by (cases "strings_Split xs sep") auto
  show ?case
  proof (cases "x = sep")
    case True
    then show ?thesis by (simp add: strings_Join_Split)
  next
    case False
    then show ?thesis using Cons sp by simp
  qed
qed

lemma writeBody_lines_others:
  "writeBody_lines lines False a b = map (\<lambda>l. Print (replicate b CHR '' '' @ l @ [newline])) lines"
  by (induction lines) (simp_all add: spaces_def)

lemma writeBody_closed:
  "writeBody text a b =
     (case formatTextIntoLines text a b of
        [] \<Rightarrow> []
      | l # ls \<Rightarrow> Print (replicate a CHR '' '' @ l @ [newline])
                  # map (\<lambda>l. Print (replicate b CHR '' '' @ l @ [newline])) ls)"
  by (simp add: writeBody_def writeBody_lines_others spaces_def split: list.splits)

lemma Max_insert_max:
  assumes "finite S"
  shows "Max (insert (max a b) S) = Max (insert a (insert b S))"
proof (cases "S = {}")
  case True
  then show ?thesis by (simp add: max.commute)
next
  case False
  then show ?thesis using assms by (simp add: max.assoc max.commute max.left_commute)
qed

lemma findLongestOption_from_Max:
  "findLongestOption_from mx options =
     Max (insert mx (set (map (\<lambda>opt. length (if Value opt \<noteq> [] then Key opt @ ''='' @ Value opt
                                              else Key opt)) options)))"
proof (induction options arbitrary: mx)
  case Nil
  show ?case by simp
next
  case (Cons opt options)
  let ?len = "\<lambda>opt. length (if Value opt \<noteq> [] then Key opt @ ''='' @ Value opt else Key opt)"
  have "findLongestOption_from mx (opt # options) =
          findLongestOption_from (max mx (?len opt)) options"
    by (simp add: Let_def max_def)
  also have "\<dots> = Max (insert (max mx (?len opt)) (set (map ?len options)))"
    by (rule Cons.IH)
  also have "\<dots> = Max (insert mx (insert (?len opt) (set (map ?len options))))"
    by (rule Max_insert_max) simp
  finally show ?case by simp
qed

lemma longestCmd_from_Max:
  "longestCmd_from mx cs = Max (insert mx (set (map (\<lambda>c. length (Name c)) cs)))"
proof (induction cs arbitrary: mx)
  case Nil
  show ?case by simp
next
  case (Cons c cs)
  have "longestCmd_from mx (c # cs) = longestCmd_from (max mx (length (Name c))) cs"
    by (simp add: max_def)
  also have "\<dots> = Max (insert (max mx (length (Name c))) (set (map (\<lambda>c. length (Name c)) cs)))"
    by (rule Cons.IH)
  also have "\<dots> = Max (insert mx (insert (length (Name c)) (set (map (\<lambda>c. length (Name c)) cs))))"
    by (rule Max_insert_max) simp
  finally show ?case by simp
qed

lemma showOptions_rows_closed:
  "showOptions_rows longest options =
     concat (map (\<lambda>opt. Print (formatOption longest opt)
                          # writeBody (Option.Description opt) 3 (6 + longest)) options)"
  by (induction options) simp_all

lemma showCommands_rows_closed:
  "showCommands_rows longestCmd cs =
     map (\<lambda>c. Print (Sprintf_cmdFormatStr longestCmd (Name c) (ShortDescription c))) cs"
  by (induction cs) simp_all

lemma width_too_large_iff: "width_too_large n \<longleftrightarrow> \<not> n < 10000010"
  by (auto simp: width_too_large_def)

text \<open>
  C3.  When the parsed command name is empty or is \<open>help\<close>, or the option map has the key
  \<open>help\<close>, all that \<open>Run\<close> does is print help, for the first positional argument if
  there is one and for the command name otherwise; no handler is called.  When that
  name is the name of a command, the first one registered with it, the help is the
  detailed help of the command: its name and argument pattern, its short description
  with a full stop, the rest of its description if there is any, and the listing of its
  options if it has any.  When no command has that name, as for the empty name, the help
  is that of the application: its description if there is one, a row for every command
  with the name padded to the longest name and the short description, and the listing
  of the global options if there are any.  A listing is an empty line and, for every
  option, its key, with \<open>=\<close> and the value name for a value option, padded to the
  longest of the listing, and then its description; a description is wrapped by
  \<open>formatTextIntoLines\<close> and every line of it indented.  (From the width 10000010 on
  \<open>fmt\<close> does not pad and prints its own complaint about the format.)
\<close>

theorem Run_help_path:
  assumes parse: "parse_args ([], [], []) (drop 1 argv) = Inr (options, cmdName, cmdArgs)"
    and hlp: "cmdName = [] \<or> cmdName = ''help'' \<or> ''help'' \<in> fst ` set options"
  shows "Run rangeOrder app argv =
     Inr (let target = (if cmdArgs \<noteq> [] then hd cmdArgs else cmdName);
              body = (\<lambda>first others lines.
                 case lines of
                   [] \<Rightarrow> []
                 | l # ls \<Rightarrow> Print (replicate first CHR '' '' @ l @ [newline])
                             # map (\<lambda>l. Print (replicate others CHR '' '' @ l @ [newline])) ls);
              shown = (\<lambda>opt. if Value opt \<noteq> [] then Key opt @ ''='' @ Value opt else Key opt);
              padded = (\<lambda>n s. s @ replicate (n - RuneCountInString s) CHR '' '');
              listing = (\<lambda>opts.
                 let longest = Max (insert 0 (set (map (\<lambda>opt. length (shown opt)) opts)))
                 in Print [newline]
                    # concat (map (\<lambda>opt.
                        Print (if longest < 10000010 then ''  -'' @ padded longest (shown opt)
                               else ''  -%!(NOVERB)%!(EXTRA string='' @ shown opt @ '')'')
                        # body 3 (6 + longest)
                            (formatTextIntoLines (Option.Description opt) 3 (6 + longest))) opts))
          in case List.find (\<lambda>c. Name c = target) (Commands app) of
               Some cmd \<Rightarrow>
                 Print ([newline] @ Name cmd @ '' '' @ formatCmdArgs (Args cmd) @ [newline, newline])
                 # body 2 2 (formatTextIntoLines
                     (takeWhile (\<lambda>x. x \<noteq> newline) (Command.Description cmd) @ ''.'') 2 2)
                 @ (if drop 1 (dropWhile (\<lambda>x. x \<noteq> newline) (Command.Description cmd)) \<noteq> []
                    then body 2 2 (formatTextIntoLines
                           (drop 1 (dropWhile (\<lambda>x. x \<noteq> newline) (Command.Description cmd))) 2 2)
                    else [])
                 @ (if Command.Options cmd \<noteq> [] then listing (Command.Options cmd) else [])
             | None \<Rightarrow>
                 (if App.Description app \<noteq> []
                  then [Print ([newline] @ App.Description app @ [newline, newline])] else [])
                 @ (let longestCmd = Max (insert 0 (set (map (\<lambda>c. length (Name c)) (Commands app))));
                        short = (\<lambda>c. takeWhile (\<lambda>x. x \<noteq> newline) (Command.Description c))
                    in map (\<lambda>c.
                         Print (if longestCmd < 10000010
                                then ''  '' @ padded longestCmd (Name c) @ ''  '' @ short c @ [newline]
                                else ''  %!(NOVERB)%!(EXTRA string='' @ Name c @ '', string=''
                                       @ short c @ '')'')) (Commands app))
                 @ (if App.Options app \<noteq> [] then listing (App.Options app) else [])) \<and>
         (\<forall>events. Run rangeOrder app argv = Inr events \<longrightarrow> (\<forall>e\<in>set events. \<not> is_call e))"
proof -
  let ?target = "if cmdArgs \<noteq> [] then hd cmdArgs else cmdName"
  have run: "Run rangeOrder app argv = Inr (snd (ShowHelp app ?target))"
    by (rule Run_help[OF parse hlp])
  have nocall: "\<forall>e\<in>set (snd (ShowHelp app ?target)). \<not> is_call e"
    by (rule ShowHelp_no_call)
  have opt: "formatOption longest opt =
      (if longest < 10000010
       then ''  -'' @ (if Value opt \<noteq> [] then Key opt @ ''='' @ Value opt else Key opt)
              @ replicate (longest - RuneCountInString
                  (if Value opt \<noteq> [] then Key opt @ ''='' @ Value opt else Key opt)) CHR '' ''
       else ''  -%!(NOVERB)%!(EXTRA string=''
              @ (if Value opt \<noteq> [] then Key opt @ ''='' @ Value opt else Key opt) @ '')'')"
    for longest opt
    by (simp add: formatOption_def Sprintf_optionFormatStr_def width_too_large_iff pad_right_def
          spaces_def)
  have no: "\<forall>events. Run rangeOrder app argv = Inr events \<longrightarrow> (\<forall>e\<in>set events. \<not> is_call e)"
    using run nocall by simp
  show ?thesis
  proof (cases "List.find (\<lambda>c. Name c = ?target) (Commands app)")
    case None
    show ?thesis
      apply (rule conjI[OF _ no])
      unfolding run using None
      by (simp add: ShowHelp_def App_find_def find_in_find Let_def showCommands_rows_closed
            longestCmd_from_Max showOptions_def findLongestOption_def findLongestOption_from_Max
            showOptions_rows_closed opt writeBody_closed Sprintf_cmdFormatStr_def
            width_too_large_iff pad_right_def spaces_def ShortDescription_def strings_Split_first
            cong: if_cong del: Max_insert)
  next
    case (Some cmd)
    show ?thesis
      apply (rule conjI[OF _ no])
      unfolding run using Some
      by (simp add: ShowHelp_def App_find_def find_in_find Let_def showOptions_def
            findLongestOption_def findLongestOption_from_Max showOptions_rows_closed opt
            writeBody_closed ShortDescription_def ExtraDescription_def strings_Split_first
            strings_Split_rest[unfolded One_nat_def] cong: if_cong del: Max_insert)
  qed
qed

text \<open>The rune count on well-formed and on ill-formed UTF-8: an ill-formed byte counts as
  one rune.\<close>

lemma RuneCountInString_examples:
  "RuneCountInString ''update'' = 6"
  "RuneCountInString [CHR 0xC3, CHR 0xA9] = 1"
  "RuneCountInString [CHR 0xE2, CHR 0x82, CHR 0xAC, CHR ''x''] = 2"
  "RuneCountInString [CHR 0xF0, CHR 0x9F, CHR 0x98, CHR 0x80] = 1"
  "RuneCountInString [CHR 0xC3] = 1"
  "RuneCountInString [CHR 0x80, CHR 0xBF] = 2"
  "RuneCountInString [CHR 0xE0, CHR 0x80, CHR 0x80] = 3"
  "RuneCountInString [CHR 0xED, CHR 0xA0, CHR 0x80] = 3"
  "RuneCountInString [CHR 0xF4, CHR 0x90, CHR 0x80, CHR 0x80] = 4"
  "RuneCountInString [CHR 0xF5, CHR 0x80] = 2"
  "RuneCountInString [CHR 0xC0, CHR 0x80] = 2"
  "RuneCountInString [CHR 0xC1, CHR 0xBF] = 2"
  "RuneCountInString [CHR 0xC2, CHR 0x80] = 1"
  "RuneCountInString [CHR 0xDF, CHR 0xBF, CHR 0x7F] = 2"
  "RuneCountInString [CHR 0xC2, CHR 0xC0] = 2"
  "RuneCountInString [CHR 0xE0, CHR 0xA0, CHR 0x80] = 1"
  "RuneCountInString [CHR 0xE0, CHR 0x9F, CHR 0x80] = 3"
  "RuneCountInString [CHR 0xED, CHR 0x9F, CHR 0xBF] = 1"
  "RuneCountInString [CHR 0xEF, CHR 0xBF, CHR 0xBF] = 1"
  "RuneCountInString [CHR 0xE2, CHR 0x82] = 2"
  "RuneCountInString [CHR 0xE2, CHR 0x82, CHR ''A''] = 3"
  "RuneCountInString [CHR 0xF0, CHR 0x90, CHR 0x80, CHR 0x80] = 1"
  "RuneCountInString [CHR 0xF0, CHR 0x8F, CHR 0x80, CHR 0x80] = 4"
  "RuneCountInString [CHR 0xF4, CHR 0x8F, CHR 0xBF, CHR 0xBF] = 1"
  "RuneCountInString [CHR 0xF0, CHR 0x9F, CHR 0x98] = 3"
  "RuneCountInString [CHR 0xF0, CHR 0x9F, CHR 0x98, CHR ''A''] = 4"
  by code_simp+

theorem Run_help_path_witness:
  "Run id imqsauth_app [''imqsauth''] =
     Inr [Print ([newline] @ ''imqsauth -c=configfile [options] command'' @ [newline, newline]),
          Print (''  createdb         Create the postgres database'' @ [newline]),
          Print (''  resetauthgroups  Reset the [admin,enabled] groups'' @ [newline]),
          Print (''  createuser       Create a user in the authentication system'' @ [newline]),
          Print [newline],
          Print ''  -c=configfile'',
          Print (''   Specify the authaus config file. A pseudo file called !TESTCONFIG1''
                 @ [newline]),
          Print (''                  is used by the REST test suite to load a test configuration.''
                 @ [newline]),
          Print (''                  This option is mandatory.'' @ [newline])] \<and>
   Run id imqsauth_app [''imqsauth'', ''help'', ''createuser''] =
     Inr [Print ([newline] @ ''createuser identity password'' @ [newline, newline]),
          Print (''  Create a user in the authentication system.'' @ [newline]),
          Print (''  This affects only the '' @ [apostrophe] @ ''authentication'' @ [apostrophe]
                 @ '' system - the permit'' @ [newline]),
          Print (''  database is not altered by this command.'' @ [newline]),
          Print [newline],
          Print ''  -update'',
          Print (''   If specified, and the user already exists, then behave identically''
                 @ [newline]),
          Print (''            to '' @ [apostrophe] @ ''setpassword'' @ [apostrophe]
                 @ ''. If this is not specified, and the identity'' @ [newline]),
          Print (''            already exists, then the function returns with an error.''
                 @ [newline])]"
proof -
  have p0: "parse_args ([], [], []) (drop 1 [''imqsauth'']) = Inr ([], [], [])"
    by simp
  have h0: "([] :: string) = [] \<or> [] = ''help'' \<or> ''help'' \<in> fst ` set ([] :: (string \<times> string) list)"
    by simp
  have p1: "parse_args ([], [], []) (drop 1 [''imqsauth'', ''help'', ''createuser'']) =
              Inr ([], ''help'', [''createuser''])"
    by (simp add: parse_arg_def)
  have h1: "''help'' = [] \<or> ''help'' = ''help'' \<or> ''help'' \<in> fst ` set ([] :: (string \<times> string) list)"
    by simp
  note a = Run_help_path[where rangeOrder = id and app = imqsauth_app, OF p0 h0, THEN conjunct1]
  note b = Run_help_path[where rangeOrder = id and app = imqsauth_app, OF p1 h1, THEN conjunct1]
  show ?thesis
  proof (rule conjI)
    show "Run id imqsauth_app [''imqsauth''] =
     Inr [Print ([newline] @ ''imqsauth -c=configfile [options] command'' @ [newline, newline]),
          Print (''  createdb         Create the postgres database'' @ [newline]),
          Print (''  resetauthgroups  Reset the [admin,enabled] groups'' @ [newline]),
          Print (''  createuser       Create a user in the authentication system'' @ [newline]),
          Print [newline],
          Print ''  -c=configfile'',
          Print (''   Specify the authaus config file. A pseudo file called !TESTCONFIG1''
                 @ [newline]),
          Print (''                  is used by the REST test suite to load a test configuration.''
                 @ [newline]),
          Print (''                  This option is mandatory.'' @ [newline])]"
      by (rule trans[OF a]) (simp add: imqsauth_app_def formatTextIntoLines_def rune_size_def, simp add: eval_nat_numeral)
  next
    show "Run id imqsauth_app [''imqsauth'', ''help'', ''createuser''] =
     Inr [Print ([newline] @ ''createuser identity password'' @ [newline, newline]),
          Print (''  Create a user in the authentication system.'' @ [newline]),
          Print (''  This affects only the '' @ [apostrophe] @ ''authentication'' @ [apostrophe]
                 @ '' system - the permit'' @ [newline]),
          Print (''  database is not altered by this command.'' @ [newline]),
          Print [newline],
          Print ''  -update'',
          Print (''   If specified, and the user already exists, then behave identically''
                 @ [newline]),
          Print (''            to '' @ [apostrophe] @ ''setpassword'' @ [apostrophe]
                 @ ''. If this is not specified, and the identity'' @ [newline]),
          Print (''            already exists, then the function returns with an error.''
                 @ [newline])]"
      by (rule trans[OF b]) (simp add: imqsauth_app_def formatTextIntoLines_def formatCmdArgs_def
            isVarArgs_def rune_size_def, simp add: eval_nat_numeral)
  qed
qed

end
